theory Spec2Isabelle
  imports Complex_Main "HOL-Library.Log_Nat"
begin

section \<open>Strings\<close>

text \<open>
  A string is a list of 8-bit characters. Letters, digits, the hyphen, the underscore and
  white space are the ASCII ones; a character above 127 stands for a byte of a non-ASCII
  character, which \<open>toLowerCase\<close> leaves alone here and which the tokenizer's regular
  expression turns into a separator, as it does with every character outside
  \<open>[a-z0-9\s-]\<close>. So the tokens and the matches of a text are those of the program for
  every text but one with a capital letter outside ASCII whose lower case has an ASCII
  letter (the Kelvin sign and the dotted capital I).
\<close>

definition code :: "char \<Rightarrow> nat" where
  "code c = of_char c"

definition is_upper :: "char \<Rightarrow> bool" where
  "is_upper c = (65 \<le> code c \<and> code c \<le> 90)"

definition is_lower :: "char \<Rightarrow> bool" where
  "is_lower c = (97 \<le> code c \<and> code c \<le> 122)"

definition is_digit :: "char \<Rightarrow> bool" where
  "is_digit c = (48 \<le> code c \<and> code c \<le> 57)"

text \<open>The class \<open>\s\<close>: tab, line feed, vertical tab, form feed, carriage return, space.\<close>

definition is_space :: "char \<Rightarrow> bool" where
  "is_space c =
     (code c = 9 \<or> code c = 10 \<or> code c = 11 \<or> code c = 12 \<or> code c = 13 \<or> code c = 32)"

definition toLowerCase_char :: "char \<Rightarrow> char" where
  "toLowerCase_char c = (if is_upper c then char_of (code c + 32) else c)"

definition toLowerCase :: "string \<Rightarrow> string" where
  "toLowerCase s = map toLowerCase_char s"

text \<open>\<open>String.prototype.trim\<close>.\<close>

definition trim :: "string \<Rightarrow> string" where
  "trim s = rev (dropWhile is_space (rev (dropWhile is_space s)))"

text \<open>\<open>x || ''\<close> for a nullable string.\<close>

definition or_empty :: "string option \<Rightarrow> string" where
  "or_empty x = (case x of None \<Rightarrow> [] | Some s \<Rightarrow> s)"

section \<open>The tokenizer of the metrics\<close>

text \<open>
  \<^verbatim>\<open>
  const tokenize = (text) => {
    if (!text) return new Set()
    return new Set(
      text.toLowerCase().replace(/[^a-z0-9\s-]/g, ' ').split(/\s+/).filter((t) => t.length >= 4))
  }
  \<close>
\<close>

text \<open>The characters that \<open>replace(/[^a-z0-9\s-]/g, ' ')\<close> leaves in place.\<close>

definition kept :: "char \<Rightarrow> bool" where
  "kept c = (is_lower c \<or> is_digit c \<or> is_space c \<or> c = CHR ''-'')"

definition replace_other :: "string \<Rightarrow> string" where
  "replace_other s = map (\<lambda>c. if kept c then c else CHR '' '') s"

text \<open>
  \<open>split(/\s+/)\<close>: the pieces between the maximal runs of white space. White space at
  the start or at the end of the string gives an empty first or last piece, and the empty
  string gives one empty piece.
\<close>

function split_ws :: "string \<Rightarrow> string list" where
  "split_ws [] = [[]]"
| "split_ws (c # cs) =
     (if is_space c then [] # split_ws (dropWhile is_space cs)
      else (case split_ws cs of w # ws \<Rightarrow> (c # w) # ws | [] \<Rightarrow> [[c]]))"
  by pat_completeness auto
termination
  by (relation "measure length") (auto simp: length_dropWhile_le less_Suc_eq_le)

text \<open>
  A JavaScript \<open>Set\<close> of strings, as the list of its members in insertion order:
  \<open>add\<close> appends a value that is not a member yet.
\<close>

definition set_add :: "'a list \<Rightarrow> 'a \<Rightarrow> 'a list" where
  "set_add s x = (if x \<in> set s then s else s @ [x])"

definition new_Set :: "'a list \<Rightarrow> 'a list" where
  "new_Set xs = fold (\<lambda>x s. set_add s x) xs []"

definition tokenize :: "string \<Rightarrow> string list" where
  "tokenize text =
     (if text = [] then []
      else new_Set (filter (\<lambda>t. 4 \<le> length t)
             (split_ws (replace_other (toLowerCase text)))))"

section \<open>The regular expression of the keyword hits\<close>

text \<open>
  \<open>new RegExp(`\\b${t}\\b`, 'gi')\<close> for a token \<open>t\<close>. A token has no character but
  lower-case letters, digits and hyphens (lemma \<open>tokenize_chars\<close>), none of which is
  special in a pattern, so the pattern is: a word boundary, the characters of \<open>t\<close>
  compared without regard to case, a word boundary.
\<close>

definition is_word_char :: "char \<Rightarrow> bool" where
  "is_word_char c = (is_upper c \<or> is_lower c \<or> is_digit c \<or> c = CHR ''_'')"

text \<open>The canonical form of a character under the flag \<open>i\<close>: its upper case.\<close>

definition canonicalize :: "char \<Rightarrow> char" where
  "canonicalize c = (if is_lower c then char_of (code c - 32) else c)"

text \<open>
  \<open>\b\<close> at position \<open>k\<close> of \<open>s\<close>: exactly one of the characters before and after
  the position is a word character; there is no character before position 0 nor after the
  end.
\<close>

definition word_boundary :: "string \<Rightarrow> nat \<Rightarrow> bool" where
  "word_boundary s k =
     ((0 < k \<and> is_word_char (s ! (k - 1))) \<noteq> (k < length s \<and> is_word_char (s ! k)))"

definition matches_at :: "string \<Rightarrow> string \<Rightarrow> nat \<Rightarrow> bool" where
  "matches_at t s i =
     (word_boundary s i
      \<and> map canonicalize (take (length t) (drop i s)) = map canonicalize t
      \<and> word_boundary s (i + length t))"

text \<open>
  \<open>text.match(regex)\<close> with the flag \<open>g\<close>: the search starts at \<open>lastIndex = 0\<close>,
  takes the first position from there at which the pattern matches, and goes on from the
  end of that match (one further after an empty match), until no position up to the end of
  the string matches. The result is the number of matches (\<open>null\<close> counts as none).
\<close>

function match_scan :: "string \<Rightarrow> string \<Rightarrow> nat \<Rightarrow> nat" where
  "match_scan t s i =
     (if length s < i then 0
      else if matches_at t s i then Suc (match_scan t s (i + max 1 (length t)))
      else match_scan t s (Suc i))"
  by pat_completeness auto
termination
  by (relation "measure (\<lambda>(t, s, i). Suc (length s) - i)") auto

declare match_scan.simps [simp del]

definition match_count :: "string \<Rightarrow> string \<Rightarrow> nat" where
  "match_count t s = match_scan t s 0"

section \<open>Tokens and whole-word occurrences, as the specification words them\<close>

text \<open>
  The characters of a token: lower-case letters, digits and the hyphen.
\<close>

definition token_char :: "char \<Rightarrow> bool" where
  "token_char c = (is_lower c \<or> is_digit c \<or> c = CHR ''-'')"

text \<open>
  The pieces of a text between its separators: each separator ends a piece, so two
  separators in a row give an empty piece.
\<close>

fun pieces :: "(char \<Rightarrow> bool) \<Rightarrow> string \<Rightarrow> string list" where
  "pieces sep [] = [[]]"
| "pieces sep (c # cs) =
     (if sep c then [] # pieces sep cs
      else (case pieces sep cs of w # ws \<Rightarrow> (c # w) # ws | [] \<Rightarrow> [[c]]))"

text \<open>
  The token \<open>t\<close> occurs in \<open>s\<close> at position \<open>i\<close> as a whole word: its characters
  stand there, and neither the character before them nor the one after them, where there
  is one, is a word character (a letter, a digit or the underscore).
\<close>

definition occurs_at :: "string \<Rightarrow> string \<Rightarrow> nat \<Rightarrow> bool" where
  "occurs_at t s i =
     (take (length t) (drop i s) = t
      \<and> (i = 0 \<or> \<not> is_word_char (s ! (i - 1)))
      \<and> (length s \<le> i + length t \<or> \<not> is_word_char (s ! (i + length t))))"

definition whole_word_occurrences :: "string \<Rightarrow> string \<Rightarrow> nat" where
  "whole_word_occurrences t s = length (filter (occurs_at t s) [0 ..< Suc (length s)])"

text \<open>A letter or a digit.\<close>

definition plain_char :: "char \<Rightarrow> bool" where
  "plain_char c = (is_lower c \<or> is_digit c)"

text \<open>
  No whole-word occurrence of \<open>t\<close> in \<open>s\<close> starts inside another one.
\<close>

definition apart :: "string \<Rightarrow> string \<Rightarrow> bool" where
  "apart t s =
     (\<forall>i \<in> set [0 ..< length s].
        occurs_at t s i \<longrightarrow> (\<forall>j \<in> set [Suc i ..< i + length t]. \<not> occurs_at t s j))"

text \<open>
  The word tokens of a text with all punctuation stripped: the pieces of length 4 or more
  of the lower-cased text cut at every character that is not a letter or a digit.
\<close>

definition word_tokens :: "string \<Rightarrow> string list" where
  "word_tokens text =
     filter (\<lambda>w. 4 \<le> length w) (pieces (\<lambda>c. \<not> plain_char c) (toLowerCase text))"

section \<open>Numbers\<close>

text \<open>
  A JavaScript number is a binary64 floating-point value. A relevance is a count below
  \<open>2\<^sup>5\<^sup>3\<close>, held exactly, and the values of the relevance score are 0 or lie between
  \<open>2\<^sup>-\<^sup>5\<^sup>3\<close> and 100. So a value is a rational, and an operation is the exact
  operation followed by rounding to 53 significant bits, ties to the even significand; the
  exponent range and the special values play no part.
\<close>

definition round_even :: "rat \<Rightarrow> int" where
  "round_even q =
     (let f = \<lfloor>q\<rfloor>; d = q - of_int f
      in if d < 1 / 2 then f else if 1 / 2 < d then f + 1 else if even f then f else f + 1)"

text \<open>The binary exponent \<open>e\<close> of a positive rational \<open>q\<close>: \<open>2\<^sup>e \<le> q < 2\<^sup>e\<^sup>+\<^sup>1\<close>.\<close>

definition binexp :: "rat \<Rightarrow> int" where
  "binexp q =
     (let (a, b) = quotient_of q; d = bitlen a - bitlen b
      in if 2 powi d \<le> q then d else d - 1)"

definition fl :: "rat \<Rightarrow> rat" where
  "fl q =
     (if q = 0 then 0
      else let e = binexp \<bar>q\<bar>
           in of_int (round_even (q * 2 powi (52 - e))) * 2 powi (e - 52))"

definition js_div :: "rat \<Rightarrow> rat \<Rightarrow> rat" where
  "js_div a b = fl (a / b)"

definition js_mul :: "rat \<Rightarrow> rat \<Rightarrow> rat" where
  "js_mul a b = fl (a * b)"

text \<open>\<open>Math.round\<close>: the nearest integer, the larger one of two that are equally near.\<close>

definition Math_round :: "rat \<Rightarrow> int" where
  "Math_round y = \<lfloor>y + 1 / 2\<rfloor>"

text \<open>
  A value as it arrives in \<open>citation_count\<close>: the interface declares a number, the code
  tests \<open>typeof p.citation_count === 'number'\<close>.
\<close>

datatype js_value = JNumber int | JNaN | JString string | JNull | JUndefined

section \<open>The metrics\<close>

record session =
  session_title :: string
  topic :: string

record paper =
  paper_id :: string
  paper_title :: string
  abstract :: "string option"
  citation_count :: js_value

record raw_point =
  raw_id :: string
  raw_title :: string
  raw_citations :: int
  raw_relevance :: nat
  raw_keywordHits :: nat

text \<open>
  An item of the chart. The field \<open>shortTitle\<close>, the title cut to 24 characters for the
  axis labels, is left out.
\<close>

record metrics_item =
  item_id :: string
  idx :: nat
  item_title :: string
  citations :: int
  relevance :: nat
  relevanceScore :: int
  keywordHits :: nat

definition topicText :: "session \<Rightarrow> string" where
  "topicText s = toLowerCase (session_title s @ '' '' @ topic s)"

definition paperText :: "paper \<Rightarrow> string" where
  "paperText p = toLowerCase (paper_title p @ '' '' @ or_empty (abstract p))"

definition relevance_of :: "string list \<Rightarrow> string list \<Rightarrow> nat" where
  "relevance_of topicTokens paperTokens =
     fold (\<lambda>t r. if t \<in> set paperTokens then r + 1 else r) topicTokens 0"

definition keywordHits_of :: "string list \<Rightarrow> string \<Rightarrow> nat" where
  "keywordHits_of topicTokens text =
     fold (\<lambda>t k. k + match_count t text) topicTokens 0"

definition citations_of :: "js_value \<Rightarrow> int" where
  "citations_of v = (case v of JNumber n \<Rightarrow> (if 0 < n then n else 0) | _ \<Rightarrow> 0)"

definition rawPoint :: "string list \<Rightarrow> paper \<Rightarrow> raw_point" where
  "rawPoint topicTokens p =
     (let text = paperText p;
          paperTokens = tokenize text
      in \<lparr>raw_id = paper_id p,
          raw_title = paper_title p,
          raw_citations = citations_of (citation_count p),
          raw_relevance = relevance_of topicTokens paperTokens,
          raw_keywordHits = keywordHits_of topicTokens text\<rparr>)"

text \<open>\<open>rawPoints.reduce((m, p) => Math.max(m, p.relevance), 0) || 1\<close>\<close>

definition maxRelevance_of :: "raw_point list \<Rightarrow> nat" where
  "maxRelevance_of rawPoints =
     (let m = fold (\<lambda>p m. max m (raw_relevance p)) rawPoints 0
      in if m = 0 then 1 else m)"

text \<open>\<open>Math.round((p.relevance / maxRelevance) * 100)\<close>\<close>

definition relevanceScore_of :: "nat \<Rightarrow> nat \<Rightarrow> int" where
  "relevanceScore_of r m = Math_round (js_mul (js_div (of_nat r) (of_nat m)) 100)"

definition chartItem :: "nat \<Rightarrow> raw_point \<Rightarrow> nat \<Rightarrow> metrics_item" where
  "chartItem maxRelevance p index =
     \<lparr>item_id = raw_id p,
      idx = index + 1,
      item_title = raw_title p,
      citations = raw_citations p,
      relevance = raw_relevance p,
      relevanceScore = relevanceScore_of (raw_relevance p) maxRelevance,
      keywordHits = raw_keywordHits p\<rparr>"

definition metricsChartData :: "session option \<Rightarrow> paper list \<Rightarrow> metrics_item list" where
  "metricsChartData sess papers =
     (case sess of
        None \<Rightarrow> []
      | Some s \<Rightarrow>
          if papers = [] then []
          else
            let topicTokens = tokenize (topicText s);
                rawPoints = map (rawPoint topicTokens) papers
            in if rawPoints = [] then []
               else
                 let maxRelevance = maxRelevance_of rawPoints
                 in map2 (chartItem maxRelevance) rawPoints [0 ..< length rawPoints])"

section \<open>The session page\<close>

text \<open>
  The state of the page is what its \<open>useState\<close> hooks hold. A handler is a function
  of the state and of what the outside answers (the dialog, the backend), and returns the
  new state with the actions it performed, in order. A handler runs to its end before the
  next one starts.
\<close>

datatype role = User | Assistant

record chat_message =
  role :: role
  content :: string

datatype draft_style = Summary | Literature_review

datatype bibliography_style = Bibtex | Apa | Mla | Ieee

datatype tab = Sources_tab | Chat_tab | Draft_tab | Metrics_tab

record page_state =
  sessionId :: string
  papers :: "paper list"
  addedPaperIds :: "string set"
  addingPaper :: "string option"
  removingPaper :: "string option"
  chatInput :: string
  chatMessages :: "chat_message list"
  chatLoading :: bool
  draftContent :: string
  draftLoading :: bool
  draftStyle :: draft_style
  bibStyle :: bibliography_style
  bibLoading :: bool
  activeTab :: tab

text \<open>The requests a handler sends, to the backend API or to the database.\<close>

datatype request =
  Post_add_to_session string paper
  | Delete_session_paper string string
  | Post_rag_chat string string
  | Post_draft_generate string draft_style
  | Get_draft_bibliography string bibliography_style

text \<open>
  What a handler does besides changing the state. A download carries the extension and
  the content of the file; its name, which holds the date, is left out.
\<close>

datatype action =
  Alert string
  | Send request
  | Console_error string
  | Download string string

text \<open>
  The outcome of a request: its data, or a failure with the \<open>detail\<close> of the error
  response when there is one.
\<close>

datatype 'a outcome = Succeeded 'a | Failed "string option"

text \<open>\<open>error.response?.data?.detail || fallback\<close>\<close>

definition detail_or :: "string option \<Rightarrow> string \<Rightarrow> string" where
  "detail_or d fallback = (case d of None \<Rightarrow> fallback | Some m \<Rightarrow> if m = [] then fallback else m)"

definition initial_state :: "string \<Rightarrow> page_state" where
  "initial_state sid =
     \<lparr>sessionId = sid, papers = [], addedPaperIds = {}, addingPaper = None,
      removingPaper = None, chatInput = [], chatMessages = [], chatLoading = False,
      draftContent = [], draftLoading = False, draftStyle = Literature_review,
      bibStyle = Bibtex, bibLoading = False, activeTab = Sources_tab\<rparr>"

definition fetchPapers :: "page_state \<Rightarrow> paper list outcome \<Rightarrow> page_state \<times> action list" where
  "fetchPapers st res =
     (case res of
        Succeeded papersList \<Rightarrow>
          (st\<lparr>papers := papersList, addedPaperIds := set (map paper_id papersList)\<rparr>, [])
      | Failed d \<Rightarrow> (st, [Console_error ''Error fetching papers:'']))"

definition handleAddPaper ::
  "page_state \<Rightarrow> paper \<Rightarrow> unit outcome \<Rightarrow> page_state \<times> action list" where
  "handleAddPaper st p res =
     (if paper_id p \<in> addedPaperIds st \<or> addingPaper st = Some (paper_id p) then (st, [])
      else
        (case res of
           Succeeded u \<Rightarrow>
             (st\<lparr>papers :=
                   (if \<exists>q \<in> set (papers st). paper_id q = paper_id p then papers st
                    else p # papers st),
                 addedPaperIds := insert (paper_id p) (addedPaperIds st),
                 addingPaper := None\<rparr>,
              [Send (Post_add_to_session (sessionId st) p)])
         | Failed d \<Rightarrow>
             (st\<lparr>addingPaper := None\<rparr>,
              [Send (Post_add_to_session (sessionId st) p),
               Console_error ''Error adding paper:'',
               Alert (detail_or d ''Failed to add paper'')])))"

text \<open>The first argument after the id is the answer to the \<open>confirm\<close> dialog.\<close>

definition handleRemovePaper ::
  "page_state \<Rightarrow> string \<Rightarrow> bool \<Rightarrow> unit outcome \<Rightarrow> page_state \<times> action list" where
  "handleRemovePaper st paperId confirmed res =
     (if \<not> confirmed then (st, [])
      else
        (case res of
           Succeeded u \<Rightarrow>
             (st\<lparr>papers := filter (\<lambda>p. paper_id p \<noteq> paperId) (papers st),
                 addedPaperIds := addedPaperIds st - {paperId},
                 removingPaper := None\<rparr>,
              [Send (Delete_session_paper (sessionId st) paperId)])
         | Failed d \<Rightarrow>
             (st\<lparr>removingPaper := None\<rparr>,
              [Send (Delete_session_paper (sessionId st) paperId),
               Console_error ''Error removing paper:'',
               Alert ''Failed to remove paper from session''])))"

definition handleChatSubmit ::
  "page_state \<Rightarrow> string outcome \<Rightarrow> page_state \<times> action list" where
  "handleChatSubmit st res =
     (if trim (chatInput st) = [] then (st, [])
      else
        let question = trim (chatInput st);
            asked = chatMessages st @ [\<lparr>role = User, content = question\<rparr>]
        in (case res of
              Succeeded answer \<Rightarrow>
                (st\<lparr>chatMessages := asked @ [\<lparr>role = Assistant, content = answer\<rparr>],
                    chatInput := [], chatLoading := False\<rparr>,
                 [Send (Post_rag_chat (sessionId st) question)])
            | Failed d \<Rightarrow>
                (st\<lparr>chatMessages :=
                      asked @ [\<lparr>role = Assistant,
                                content = ''Error: '' @ detail_or d ''Failed to get answer''\<rparr>],
                    chatInput := [], chatLoading := False\<rparr>,
                 [Send (Post_rag_chat (sessionId st) question),
                  Console_error ''Chat error:''])))"

text \<open>
  The submit button of the chat form:
  \<open>disabled={chatLoading || !chatInput.trim() || papers.length === 0}\<close>. The form's only
  submit button being disabled, the browser does not submit the form, by a click or by the
  Enter key, and \<open>handleChatSubmit\<close> does not run.
\<close>

definition chat_submit_disabled :: "page_state \<Rightarrow> bool" where
  "chat_submit_disabled st = (chatLoading st \<or> trim (chatInput st) = [] \<or> length (papers st) = 0)"

definition submit_chat_form :: "page_state \<Rightarrow> string outcome \<Rightarrow> page_state \<times> action list" where
  "submit_chat_form st res = (if chat_submit_disabled st then (st, []) else handleChatSubmit st res)"

definition handleGenerateDraft ::
  "page_state \<Rightarrow> string option outcome \<Rightarrow> page_state \<times> action list" where
  "handleGenerateDraft st res =
     (if length (papers st) = 0
      then (st, [Alert ''Add some sources to this session before generating a draft.''])
      else
        (case res of
           Succeeded c \<Rightarrow>
             (st\<lparr>draftContent := or_empty c, activeTab := Draft_tab, draftLoading := False\<rparr>,
              [Send (Post_draft_generate (sessionId st) (draftStyle st))])
         | Failed d \<Rightarrow>
             (st\<lparr>draftLoading := False\<rparr>,
              [Send (Post_draft_generate (sessionId st) (draftStyle st)),
               Console_error ''Draft generation error:'',
               Alert (detail_or d ''Failed to generate draft. Please try again.'')])))"

definition handleExportBibliography ::
  "page_state \<Rightarrow> string option outcome \<Rightarrow> page_state \<times> action list" where
  "handleExportBibliography st res =
     (if length (papers st) = 0
      then (st, [Alert ''Add some sources to this session before exporting references.''])
      else
        (case res of
           Succeeded t \<Rightarrow>
             (if trim (or_empty t) = []
              then (st\<lparr>bibLoading := False\<rparr>,
                    [Send (Get_draft_bibliography (sessionId st) (bibStyle st)),
                     Alert ''No references available for this session yet.''])
              else (st\<lparr>bibLoading := False\<rparr>,
                    [Send (Get_draft_bibliography (sessionId st) (bibStyle st)),
                     Download (if bibStyle st = Bibtex then ''bib'' else ''txt'') (or_empty t)]))
         | Failed d \<Rightarrow>
             (st\<lparr>bibLoading := False\<rparr>,
              [Send (Get_draft_bibliography (sessionId st) (bibStyle st)),
               Console_error ''Bibliography export error:'',
               Alert (detail_or d ''Failed to export references. Please try again.'')])))"

text \<open>The requests among the actions of a handler.\<close>

definition requests_of :: "action list \<Rightarrow> request list" where
  "requests_of acts = concat (map (\<lambda>a. case a of Send r \<Rightarrow> [r] | _ \<Rightarrow> []) acts)"

text \<open>A sequence of add-paper operations, each with the outcome of its request.\<close>

definition add_papers :: "page_state \<Rightarrow> (paper \<times> unit outcome) list \<Rightarrow> page_state" where
  "add_papers st ops = fold (\<lambda>(p, res) st. fst (handleAddPaper st p res)) ops st"

section \<open>Example data\<close>

definition paper_A :: "string \<Rightarrow> string option \<Rightarrow> paper" where
  "paper_A i a =
     \<lparr>paper_id = i, paper_title = ''Machine Learning for Diagnostics'', abstract = a,
      citation_count = JNumber 50\<rparr>"

definition paper_B :: "string \<Rightarrow> string option \<Rightarrow> paper" where
  "paper_B i a =
     \<lparr>paper_id = i, paper_title = ''Cooking Recipes'', abstract = a,
      citation_count = JNumber 5\<rparr>"

definition diagnostics_session :: session where
  "diagnostics_session = \<lparr>session_title = [], topic = ''machine learning diagnostics''\<rparr>"

definition asking_state :: page_state where
  "asking_state = (initial_state ''s1'')\<lparr>chatInput := '' why? ''\<rparr>"

definition two_papers_state :: page_state where
  "two_papers_state =
     (initial_state ''s1'')
       \<lparr>papers := [paper_B ''p2'' None, paper_A ''p1'' None], addedPaperIds := {''p1'', ''p2''}\<rparr>"

definition diagnostics_chart :: "metrics_item list" where
  "diagnostics_chart =
     metricsChartData (Some diagnostics_session) [paper_A ''A'' None, paper_B ''B'' (Some [])]"


text \<open>A topic of 40 words, a paper with all of them and a paper with 23 of them.\<close>

definition wide_tokens :: "string list" where
  "wide_tokens =
     [''1000'', ''1001'', ''1002'', ''1003'', ''1004'', ''1005'', ''1006'', ''1007'',
      ''1008'', ''1009'', ''1010'', ''1011'', ''1012'', ''1013'', ''1014'', ''1015'',
      ''1016'', ''1017'', ''1018'', ''1019'', ''1020'', ''1021'', ''1022'', ''1023'',
      ''1024'', ''1025'', ''1026'', ''1027'', ''1028'', ''1029'', ''1030'', ''1031'',
      ''1032'', ''1033'', ''1034'', ''1035'', ''1036'', ''1037'', ''1038'', ''1039'']"

text \<open>The words of a list, one space between two.\<close>

definition join_words :: "string list \<Rightarrow> string" where
  "join_words ws = concat (map (\<lambda>w. w @ '' '') (butlast ws)) @ last ws"

definition wide_session :: session where
  "wide_session =
     \<lparr>session_title = join_words (take 20 wide_tokens), topic = join_words (drop 20 wide_tokens)\<rparr>"

definition wide_A :: paper where
  "wide_A =
     \<lparr>paper_id = ''A'', paper_title = join_words (take 20 wide_tokens),
      abstract = Some (join_words (drop 20 wide_tokens)), citation_count = JNumber 1\<rparr>"

definition wide_B :: paper where
  "wide_B =
     \<lparr>paper_id = ''B'', paper_title = join_words (take 23 wide_tokens), abstract = None,
      citation_count = JNumber 1\<rparr>"

text \<open>Texts with hyphens.\<close>

definition dashes_session :: session where
  "dashes_session = \<lparr>session_title = ''Nets'', topic = ''2019 ---- 2024''\<rparr>"

definition dashes_paper :: paper where
  "dashes_paper =
     \<lparr>paper_id = ''T'', paper_title = ''Trees ---- forests'', abstract = None,
      citation_count = JNumber 0\<rparr>"

definition omics_session :: session where
  "omics_session = \<lparr>session_title = [], topic = ''-omics data''\<rparr>"

definition omics_paper :: paper where
  "omics_paper =
     \<lparr>paper_id = ''O'', paper_title = ''The -omics revolution'', abstract = None,
      citation_count = JNumber 0\<rparr>"

definition covid_session :: session where
  "covid_session = \<lparr>session_title = [], topic = ''COVID-19 tests''\<rparr>"

definition covid_paper :: paper where
  "covid_paper =
     \<lparr>paper_id = ''C'', paper_title = ''COVID-19 and covid-19 tests'', abstract = None,
      citation_count = JNumber 0\<rparr>"

section \<open>The chart data, item by item\<close>

lemma metrics_unfold:
  "metricsChartData (Some s) ps =
     map2 (chartItem (maxRelevance_of (map (rawPoint (tokenize (topicText s))) ps)))
       (map (rawPoint (tokenize (topicText s))) ps) [0 ..< length ps]"
  by (simp add: metricsChartData_def Let_def)

lemma metrics_length: "length (metricsChartData (Some s) ps) = length ps"
  by (simp add: metrics_unfold)

lemma metrics_nth:
  assumes "i < length ps"
  shows "metricsChartData (Some s) ps ! i =
     chartItem (maxRelevance_of (map (rawPoint (tokenize (topicText s))) ps))
       (rawPoint (tokenize (topicText s)) (ps ! i)) i"
  using assms by (simp add: metrics_unfold)

lemma map_citations:
  "map citations (metricsChartData (Some s) ps) = map (\<lambda>p. citations_of (citation_count p)) ps"
  by (rule nth_equalityI)
     (simp_all add: metrics_length metrics_nth chartItem_def rawPoint_def Let_def)

lemma metrics_None: "metricsChartData None ps = []"
  by (simp add: metricsChartData_def)

lemma map_relevance:
  "map relevance (metricsChartData (Some s) ps) =
     map raw_relevance (map (rawPoint (tokenize (topicText s))) ps)"
  by (rule nth_equalityI) (simp_all add: metrics_length metrics_nth chartItem_def)

lemma raw_relevance_rawPoint:
  "raw_relevance (rawPoint T p) = relevance_of T (tokenize (paperText p))"
  by (simp add: rawPoint_def Let_def)

lemma map_relevanceScore:
  "map relevanceScore (metricsChartData (Some s) ps) =
     map (\<lambda>r. relevanceScore_of r (maxRelevance_of (map (rawPoint (tokenize (topicText s))) ps)))
       (map relevance (metricsChartData (Some s) ps))"
  by (rule nth_equalityI) (simp_all add: metrics_length metrics_nth chartItem_def)

lemma fold_max:
  "fold (\<lambda>p m. max m (g p)) xs (a::nat) = Max (insert a (g ` set xs))"
proof (induction xs arbitrary: a)
  case Nil
  then show ?case by simp
next
  case (Cons x xs)
  have "Max (insert (max a (g x)) (g ` set xs)) = Max (insert a (insert (g x) (g ` set xs)))"
    by (cases "g ` set xs = {}") (simp_all add: max.assoc)
  then show ?case by (simp add: Cons.IH)
qed

text \<open>The greatest relevance of the chart, 0 for an empty chart.\<close>

lemma fold_max_relevance:
  "fold (\<lambda>p m. max m (raw_relevance p)) (map (rawPoint (tokenize (topicText s))) ps) 0 =
     Max (insert 0 (relevance ` set (metricsChartData (Some s) ps)))"
proof -
  have "relevance ` set (metricsChartData (Some s) ps) =
      raw_relevance ` set (map (rawPoint (tokenize (topicText s))) ps)"
    using map_relevance [of s ps] by (metis set_map)
  then show ?thesis by (simp only: fold_max)
qed

lemma item_score:
  assumes "it \<in> set (metricsChartData sess ps)"
  obtains s where "sess = Some s"
    and "relevanceScore it =
      relevanceScore_of (relevance it)
        (maxRelevance_of (map (rawPoint (tokenize (topicText s))) ps))"
proof (cases sess)
  case None
  with assms show ?thesis by (simp add: metrics_None)
next
  case (Some s)
  with assms obtain i where "i < length ps" "it = metricsChartData (Some s) ps ! i"
    by (metis in_set_conv_nth metrics_length)
  then have "relevanceScore it =
      relevanceScore_of (relevance it)
        (maxRelevance_of (map (rawPoint (tokenize (topicText s))) ps))"
    by (simp add: metrics_nth chartItem_def)
  with Some that show ?thesis by blast
qed

lemma relevance_le_max:
  assumes "it \<in> set (metricsChartData (Some s) ps)"
  shows "relevance it \<le> Max (insert 0 (relevance ` set (metricsChartData (Some s) ps)))"
  using assms by (intro Max_ge) simp_all


lemma fold_count:
  "fold (\<lambda>t r. if c t then r + 1 else r) ts (a::nat) = a + length (filter c ts)"
  by (induction ts arbitrary: a) simp_all

lemma relevance_of_filter:
  "relevance_of topicTokens paperTokens = length (filter (\<lambda>t. t \<in> set paperTokens) topicTokens)"
  by (simp add: relevance_of_def fold_count)

lemma item_relevance_le:
  assumes "it \<in> set (metricsChartData (Some s) ps)"
  shows "relevance it \<le> length (tokenize (topicText s))"
proof -
  from assms obtain i where "i < length ps" "it = metricsChartData (Some s) ps ! i"
    by (metis in_set_conv_nth metrics_length)
  then show ?thesis
    by (simp add: metrics_nth chartItem_def rawPoint_def Let_def relevance_of_filter)
qed


section \<open>The tokens of a text\<close>

lemma set_new_Set_aux: "set (fold (\<lambda>x s. set_add s x) xs acc) = set acc \<union> set xs"
  by (induction xs arbitrary: acc) (auto simp: set_add_def)

lemma distinct_new_Set_aux:
  "distinct acc \<Longrightarrow> distinct (fold (\<lambda>x s. set_add s x) xs acc)"
  by (induction xs arbitrary: acc) (auto simp: set_add_def)

lemma set_new_Set: "set (new_Set xs) = set xs"
  by (simp add: new_Set_def set_new_Set_aux)

lemma distinct_new_Set: "distinct (new_Set xs)"
  by (simp add: new_Set_def distinct_new_Set_aux)

lemma distinct_tokenize: "distinct (tokenize text)"
  by (simp add: tokenize_def distinct_new_Set)

lemma pieces_nonempty: "pieces sep s \<noteq> []"
  by (induction s) (auto split: list.splits)

lemma split_ws_nonempty: "split_ws s \<noteq> []"
  by (induction s rule: split_ws.induct) (auto split: list.splits)

lemma pieces_dropWhile:
  "filter (\<lambda>w. w \<noteq> []) (pieces sep (dropWhile sep s)) = filter (\<lambda>w. w \<noteq> []) (pieces sep s)"
  by (induction s) simp_all

lemma split_ws_pieces_aux:
  "hd (split_ws s) = hd (pieces is_space s)
   \<and> filter (\<lambda>w. w \<noteq> []) (tl (split_ws s)) = filter (\<lambda>w. w \<noteq> []) (tl (pieces is_space s))"
proof (induction s rule: split_ws.induct)
  case 1
  then show ?case by simp
next
  case (2 c cs)
  show ?case
  proof (cases "is_space c")
    case True
    define d where "d = dropWhile is_space cs"
    obtain w ws where w: "split_ws d = w # ws"
      using split_ws_nonempty [of d] by (cases "split_ws d") auto
    obtain v vs where v: "pieces is_space d = v # vs"
      using pieces_nonempty [of is_space d] by (cases "pieces is_space d") auto
    from 2(1) [OF True] have "w = v" "filter (\<lambda>w. w \<noteq> []) ws = filter (\<lambda>w. w \<noteq> []) vs"
      by (simp_all add: w v flip: d_def)
    then have "filter (\<lambda>w. w \<noteq> []) (split_ws d) = filter (\<lambda>w. w \<noteq> []) (pieces is_space d)"
      by (simp add: w v)
    also have "\<dots> = filter (\<lambda>w. w \<noteq> []) (pieces is_space cs)"
      unfolding d_def by (rule pieces_dropWhile)
    finally show ?thesis using True by (simp flip: d_def)
  next
    case False
    obtain w ws where w: "split_ws cs = w # ws"
      using split_ws_nonempty [of cs] by (cases "split_ws cs") auto
    obtain v vs where v: "pieces is_space cs = v # vs"
      using pieces_nonempty [of is_space cs] by (cases "pieces is_space cs") auto
    from 2(2) [OF False] have "w = v" "filter (\<lambda>w. w \<noteq> []) ws = filter (\<lambda>w. w \<noteq> []) vs"
      by (simp_all add: w v)
    then show ?thesis using False by (simp add: w v)
  qed
qed

lemma split_ws_pieces:
  "filter (\<lambda>w. w \<noteq> []) (split_ws s) = filter (\<lambda>w. w \<noteq> []) (pieces is_space s)"
proof -
  obtain w ws where w: "split_ws s = w # ws"
    using split_ws_nonempty [of s] by (cases "split_ws s") auto
  obtain v vs where v: "pieces is_space s = v # vs"
    using pieces_nonempty [of is_space s] by (cases "pieces is_space s") auto
  from split_ws_pieces_aux [of s] show ?thesis by (simp add: w v)
qed

lemma pieces_map:
  assumes "\<And>c. Q (g c) = P c" and "\<And>c. \<not> P c \<Longrightarrow> g c = c"
  shows "pieces Q (map g s) = pieces P s"
  using assms by (induction s) (auto split: list.splits)

lemma code_bounds_simps:
  "code CHR ''-'' = 45" "code CHR '' '' = 32" "code CHR ''_'' = 95"
  by (simp_all add: code_def)

lemma replace_other_pieces:
  "pieces is_space (replace_other s) = pieces (\<lambda>c. \<not> token_char c) s"
  unfolding replace_other_def
proof (rule pieces_map)
  fix c
  show "is_space (if kept c then c else CHR '' '') = (\<not> token_char c)"
    by (auto simp: kept_def token_char_def is_space_def is_lower_def is_digit_def code_bounds_simps)
  show "\<not> \<not> token_char c \<Longrightarrow> (if kept c then c else CHR '' '') = c"
    by (auto simp: kept_def token_char_def)
qed

lemma filter_long_nonempty:
  "filter (\<lambda>t. 4 \<le> length t) xs = filter (\<lambda>t. 4 \<le> length t) (filter (\<lambda>w. w \<noteq> []) xs)"
  by (induction xs) auto

lemma tokenize_pieces:
  "set (tokenize text) =
     {w \<in> set (pieces (\<lambda>c. \<not> token_char c) (toLowerCase text)). 4 \<le> length w}"
proof (cases "text = []")
  case True
  then show ?thesis by (simp add: tokenize_def toLowerCase_def)
next
  case False
  have "set (tokenize text) =
      set (filter (\<lambda>t. 4 \<le> length t) (split_ws (replace_other (toLowerCase text))))"
    using False by (simp add: tokenize_def set_new_Set)
  also have "\<dots> = set (filter (\<lambda>t. 4 \<le> length t)
      (filter (\<lambda>w. w \<noteq> []) (pieces is_space (replace_other (toLowerCase text)))))"
    by (metis filter_long_nonempty split_ws_pieces)
  also have "\<dots> = set (filter (\<lambda>t. 4 \<le> length t)
      (pieces (\<lambda>c. \<not> token_char c) (toLowerCase text)))"
    by (simp only: replace_other_pieces flip: filter_long_nonempty)
  finally show ?thesis by auto
qed

lemma relevance_of_card:
  assumes "distinct topicTokens"
  shows "relevance_of topicTokens paperTokens = card (set topicTokens \<inter> set paperTokens)"
proof -
  have "set (filter (\<lambda>t. t \<in> set paperTokens) topicTokens) = set topicTokens \<inter> set paperTokens"
    by auto
  moreover have "distinct (filter (\<lambda>t. t \<in> set paperTokens) topicTokens)"
    using assms by simp
  ultimately show ?thesis
    by (metis relevance_of_filter distinct_card)
qed

lemma pieces_chars: "w \<in> set (pieces sep s) \<Longrightarrow> c \<in> set w \<Longrightarrow> \<not> sep c"
proof (induction s arbitrary: w)
  case Nil
  then show ?case by simp
next
  case (Cons a s)
  obtain v vs where v: "pieces sep s = v # vs"
    using pieces_nonempty [of sep s] by (cases "pieces sep s") auto
  show ?case
  proof (cases "sep a")
    case True
    with Cons.prems have "w \<in> set (pieces sep s)" by auto
    with Cons show ?thesis by blast
  next
    case False
    with Cons.prems v have "w = a # v \<or> w \<in> set vs" by simp
    then show ?thesis
    proof
      assume w: "w = a # v"
      with Cons.prems(2) have "c = a \<or> c \<in> set v" by simp
      then show ?thesis using False Cons.IH [of v] v by auto
    next
      assume "w \<in> set vs"
      then show ?thesis using Cons.IH [of w] Cons.prems(2) v by simp
    qed
  qed
qed

lemma tokenize_chars: "t \<in> set (tokenize text) \<Longrightarrow> c \<in> set t \<Longrightarrow> token_char c"
  using pieces_chars [of t "\<lambda>c. \<not> token_char c"] by (auto simp: tokenize_pieces)


lemma length_new_Set_aux:
  "length (fold (\<lambda>x s. set_add s x) xs acc) \<le> length acc + length xs"
proof (induction xs arbitrary: acc)
  case Nil
  then show ?case by simp
next
  case (Cons x xs)
  have "length (set_add acc x) \<le> Suc (length acc)" by (simp add: set_add_def)
  with Cons [of "set_add acc x"] show ?case by simp
qed

lemma length_new_Set: "length (new_Set xs) \<le> length xs"
  using length_new_Set_aux [of xs "[]"] by (simp add: new_Set_def)

lemma pieces_count: "length (filter (\<lambda>w. w \<noteq> []) (pieces sep s)) \<le> length s"
proof (induction s)
  case Nil
  then show ?case by simp
next
  case (Cons c cs)
  obtain w ws where w: "pieces sep cs = w # ws"
    using pieces_nonempty [of sep cs] by (cases "pieces sep cs") auto
  have "length (filter (\<lambda>w. w \<noteq> []) ws) \<le> length (filter (\<lambda>w. w \<noteq> []) (w # ws))"
    by simp
  with Cons w show ?case by (cases "sep c") simp_all
qed

lemma tokenize_length: "length (tokenize text) \<le> length text"
proof (cases "text = []")
  case True
  then show ?thesis by (simp add: tokenize_def)
next
  case False
  define s where "s = replace_other (toLowerCase text)"
  have "length (tokenize text) \<le> length (filter (\<lambda>t. 4 \<le> length t) (split_ws s))"
    using False length_new_Set by (simp add: tokenize_def s_def)
  also have "\<dots> = length (filter (\<lambda>t. 4 \<le> length t) (filter (\<lambda>w. w \<noteq> []) (split_ws s)))"
    by (simp only: filter_long_nonempty [symmetric])
  also have "\<dots> \<le> length (filter (\<lambda>w. w \<noteq> []) (split_ws s))"
    by (rule length_filter_le)
  also have "\<dots> \<le> length s"
    by (simp only: split_ws_pieces pieces_count)
  finally show ?thesis by (simp add: s_def replace_other_def toLowerCase_def)
qed

lemma topic_tokens_length:
  "length (tokenize (topicText s)) \<le> Suc (length (session_title s) + length (topic s))"
  using tokenize_length [of "topicText s"] by (simp add: topicText_def toLowerCase_def)

section \<open>Matches of a token and its whole-word occurrences\<close>

lemma code_char_of: "n < 256 \<Longrightarrow> code (char_of n) = n"
  by (simp add: code_def)

lemma code_less: "code c < 256"
  by (simp add: code_def)

lemma code_inject: "code c = code d \<Longrightarrow> c = d"
  by (simp add: code_def)

lemma toLowerCase_char_not_upper: "\<not> is_upper (toLowerCase_char c)"
  by (auto simp: toLowerCase_char_def is_upper_def code_char_of)

lemma toLowerCase_not_upper: "c \<in> set (toLowerCase s) \<Longrightarrow> \<not> is_upper c"
  by (auto simp: toLowerCase_def toLowerCase_char_not_upper)

lemma canonicalize_inject:
  assumes "canonicalize c = canonicalize d" and "\<not> is_upper c" and "\<not> is_upper d"
  shows "c = d"
proof -
  have low: "code (canonicalize x) = code x - 32" "65 \<le> code (canonicalize x)" "code (canonicalize x) \<le> 90"
    if "is_lower x" for x
  proof -
    have "code (char_of (code x - 32)) = code x - 32"
      using code_char_of [of "code x - 32"] code_less [of x] by simp
    with that show "code (canonicalize x) = code x - 32" "65 \<le> code (canonicalize x)"
      "code (canonicalize x) \<le> 90"
      by (auto simp: canonicalize_def is_lower_def)
  qed
  have other: "canonicalize x = x" if "\<not> is_lower x" for x
    using that by (simp add: canonicalize_def)
  consider "is_lower c" "is_lower d" | "is_lower c" "\<not> is_lower d" | "\<not> is_lower c" "is_lower d"
    | "\<not> is_lower c" "\<not> is_lower d" by blast
  then show ?thesis
  proof cases
    case 1
    then have "code c - 32 = code d - 32" using low(1) [of c] low(1) [of d] assms(1) by simp
    with 1 have "code c = code d" by (auto simp: is_lower_def)
    then show ?thesis by (rule code_inject)
  next
    case 2
    then have "is_upper d" using low(2,3) [of c] other [of d] assms(1) by (simp add: is_upper_def)
    with assms(3) show ?thesis by simp
  next
    case 3
    then have "is_upper c" using low(2,3) [of d] other [of c] assms(1) by (simp add: is_upper_def)
    with assms(2) show ?thesis by simp
  next
    case 4
    then show ?thesis using other assms(1) by simp
  qed
qed

lemma map_canonicalize_eq:
  assumes "\<forall>c \<in> set a. \<not> is_upper c" and "\<forall>c \<in> set b. \<not> is_upper c"
  shows "map canonicalize a = map canonicalize b \<longleftrightarrow> a = b"
proof -
  have "inj_on canonicalize (set a \<union> set b)"
    using assms by (auto intro!: inj_onI canonicalize_inject)
  then show ?thesis by (rule inj_on_map_eq_map)
qed

lemma plain_word_char: "is_lower c \<or> is_digit c \<Longrightarrow> is_word_char c"
  by (auto simp: is_word_char_def)

lemma plain_not_upper: "is_lower c \<or> is_digit c \<Longrightarrow> \<not> is_upper c"
  by (auto simp: is_lower_def is_digit_def is_upper_def)

lemma take_drop_eq_nth:
  assumes "take (length t) (drop i s) = t" and "k < length t"
  shows "i + k < length s" and "s ! (i + k) = t ! k"
proof -
  have "length (take (length t) (drop i s)) = length t"
    using assms(1) by simp
  then have "length t \<le> length s - i" by simp
  with assms(2) show "i + k < length s" by simp
  have "t ! k = take (length t) (drop i s) ! k" using assms(1) by simp
  also have "\<dots> = drop i s ! k" using assms(2) by simp
  also have "\<dots> = s ! (i + k)" using \<open>i + k < length s\<close> by simp
  finally show "s ! (i + k) = t ! k" by simp
qed


lemma matches_at_occurs:
  assumes t: "t \<noteq> []" "plain_char (hd t)" "plain_char (last t)" "\<forall>c \<in> set t. \<not> is_upper c"
    and s: "\<forall>c \<in> set s. \<not> is_upper c"
  shows "matches_at t s i \<longleftrightarrow> occurs_at t s i"
proof -
  have up: "\<forall>c \<in> set (take (length t) (drop i s)). \<not> is_upper c"
    using s by (meson in_set_takeD in_set_dropD)
  have eq: "map canonicalize (take (length t) (drop i s)) = map canonicalize t
      \<longleftrightarrow> take (length t) (drop i s) = t"
    by (rule map_canonicalize_eq [OF up t(4)])
  show ?thesis
  proof (cases "take (length t) (drop i s) = t")
    case False
    then show ?thesis by (simp add: matches_at_def occurs_at_def eq)
  next
    case True
    have n: "0 < length t" using t(1) by simp
    have "is_word_char (t ! 0)"
      using t(1,2) plain_word_char [of "hd t"] by (simp add: hd_conv_nth plain_char_def)
    then have first: "i < length s" "is_word_char (s ! i)"
      using take_drop_eq_nth [OF True n] by auto
    have "is_word_char (t ! (length t - 1))"
      using t(1,3) plain_word_char [of "last t"] by (simp add: last_conv_nth plain_char_def)
    moreover have "length t - 1 < length t" using n by simp
    ultimately have last: "is_word_char (s ! (i + length t - 1))"
      using take_drop_eq_nth(2) [OF True, of "length t - 1"] n by auto
    have b1: "word_boundary s i \<longleftrightarrow> (i = 0 \<or> \<not> is_word_char (s ! (i - 1)))"
      using first by (auto simp: word_boundary_def)
    have b2: "word_boundary s (i + length t)
        \<longleftrightarrow> (length s \<le> i + length t \<or> \<not> is_word_char (s ! (i + length t)))"
      using last n by (auto simp: word_boundary_def)
    show ?thesis by (simp add: matches_at_def occurs_at_def eq True b1 b2)
  qed
qed

lemma occurs_at_inside:
  assumes "occurs_at t s i" and "t \<noteq> []"
  shows "i < length s"
proof -
  have "take (length t) (drop i s) = t" using assms(1) by (simp add: occurs_at_def)
  from take_drop_eq_nth(1) [OF this, of 0] assms(2) show ?thesis by simp
qed

lemma no_occurrence_inside:
  assumes t: "\<forall>c \<in> set t. plain_char c"
    and at: "take (length t) (drop i s) = t"
    and j: "i < j" "j < i + length t"
  shows "\<not> occurs_at t s j"
proof -
  have "j - 1 - i < length t" using j by simp
  from take_drop_eq_nth(2) [OF at this] have "s ! (j - 1) = t ! (j - 1 - i)"
    using j by simp
  moreover have "t ! (j - 1 - i) \<in> set t" using \<open>j - 1 - i < length t\<close> by simp
  ultimately have "is_word_char (s ! (j - 1))"
    using t plain_word_char by (auto simp: plain_char_def)
  then show ?thesis using j by (simp add: occurs_at_def)
qed

lemma plain_apart:
  assumes "\<forall>c \<in> set t. plain_char c"
  shows "apart t s"
  unfolding apart_def
proof (intro ballI impI)
  fix i j
  assume "occurs_at t s i" and "j \<in> set [Suc i ..< i + length t]"
  then show "\<not> occurs_at t s j"
    using no_occurrence_inside [OF assms, of i s j] by (simp add: occurs_at_def)
qed

lemma match_scan_occurrences:
  assumes "t \<noteq> []" and "plain_char (hd t)" and "plain_char (last t)"
    and "\<forall>c \<in> set t. \<not> is_upper c" and "\<forall>c \<in> set s. \<not> is_upper c" and "apart t s"
  shows "match_scan t s i = length (filter (occurs_at t s) [i ..< Suc (length s)])"
  using assms
proof (induction t s i rule: match_scan.induct)
  case (1 t s i)
  note t = "1.prems"(1-4) and s = "1.prems"(5) and ap = "1.prems"(6)
  show ?case
  proof (cases "length s < i")
    case True
    then show ?thesis by (subst match_scan.simps) simp
  next
    case inside: False
    show ?thesis
    proof (cases "matches_at t s i")
      case True
      then have occ: "occurs_at t s i" using matches_at_occurs [OF t s] by simp
      then have at: "take (length t) (drop i s) = t" by (simp add: occurs_at_def)
      have n: "0 < length t" using t(1) by simp
      then have n1: "max 1 (length t) = length t" by (simp add: max_def Suc_leI)
      from n have "length t - 1 < length t" by simp
      from take_drop_eq_nth(1) [OF at this] n have bound: "i + length t \<le> length s" by simp
      have IH: "match_scan t s (i + length t) =
          length (filter (occurs_at t s) [i + length t ..< Suc (length s)])"
        using "1.IH"(1) [OF inside True t s ap] by (simp only: n1)
      have "[i ..< Suc (length s)] = [i ..< i + length t] @ [i + length t ..< Suc (length s)]"
        using bound upt_add_eq_append [of i "i + length t" "Suc (length s) - (i + length t)"]
        by simp
      moreover have "[i ..< i + length t] = i # [Suc i ..< i + length t]"
        using n by (simp add: upt_conv_Cons)
      ultimately have split:
        "[i ..< Suc (length s)] = i # [Suc i ..< i + length t] @ [i + length t ..< Suc (length s)]"
        by simp
      have "i \<in> set [0 ..< length s]" using occurs_at_inside [OF occ t(1)] by simp
      with ap occ have "\<forall>j \<in> set [Suc i ..< i + length t]. \<not> occurs_at t s j"
        unfolding apart_def by blast
      then have none: "filter (occurs_at t s) [Suc i ..< i + length t] = []"
        by (simp add: filter_empty_conv)
      have "match_scan t s i = Suc (match_scan t s (i + length t))"
        using inside True by (subst match_scan.simps) (simp only: n1 if_True if_False)
      then show ?thesis by (simp only: IH split) (simp add: occ none)
    next
      case False
      then have occ: "\<not> occurs_at t s i" using matches_at_occurs [OF t s] by simp
      have IH: "match_scan t s (Suc i) =
          length (filter (occurs_at t s) [Suc i ..< Suc (length s)])"
        using "1.IH"(2) [OF inside False t s ap] .
      have split: "[i ..< Suc (length s)] = i # [Suc i ..< Suc (length s)]"
        using inside by (simp add: upt_conv_Cons)
      have "match_scan t s i = match_scan t s (Suc i)"
        using inside False by (subst match_scan.simps) simp
      then show ?thesis by (simp only: IH split) (simp add: occ)
    qed
  qed
qed

lemma match_count_occurrences:
  assumes "t \<noteq> []" and "plain_char (hd t)" and "plain_char (last t)"
    and "\<forall>c \<in> set t. \<not> is_upper c" and "\<forall>c \<in> set s. \<not> is_upper c" and "apart t s"
  shows "match_count t s = whole_word_occurrences t s"
  using match_scan_occurrences [OF assms, of 0]
  by (simp add: match_count_def whole_word_occurrences_def)

lemma token_char_not_upper: "token_char c \<Longrightarrow> \<not> is_upper c"
  by (auto simp: token_char_def is_lower_def is_digit_def is_upper_def code_bounds_simps)

lemma fold_sum: "fold (\<lambda>t k. k + f t) ts (a::nat) = a + sum_list (map f ts)"
  by (induction ts arbitrary: a) simp_all

lemma keywordHits_of_sum:
  "keywordHits_of topicTokens text = sum_list (map (\<lambda>t. match_count t text) topicTokens)"
  by (simp add: keywordHits_of_def fold_sum)

lemma tokenize_long: "t \<in> set (tokenize text) \<Longrightarrow> 4 \<le> length t"
  by (auto simp: tokenize_def new_Set_def set_new_Set_aux split: if_splits)

lemma map_keywordHits:
  "map keywordHits (metricsChartData (Some s) ps) =
     map (\<lambda>p. keywordHits_of (tokenize (topicText s)) (paperText p)) ps"
  by (rule nth_equalityI)
     (simp_all add: metrics_length metrics_nth chartItem_def rawPoint_def Let_def)


section \<open>Rounding to double precision\<close>

lemma round_even_err: "\<bar>of_int (round_even x) - x\<bar> \<le> 1 / 2"
proof -
  have "of_int \<lfloor>x\<rfloor> \<le> x" "x < of_int \<lfloor>x\<rfloor> + 1" by linarith+
  then show ?thesis
    by (auto simp: round_even_def Let_def abs_le_iff)
qed

lemma round_even_le:
  assumes "x \<le> of_int n"
  shows "round_even x \<le> n"
proof -
  have f: "\<lfloor>x\<rfloor> \<le> n" using assms by (simp add: floor_le_iff)
  show ?thesis
  proof (cases "\<lfloor>x\<rfloor> = n")
    case True
    then have "x - of_int \<lfloor>x\<rfloor> \<le> 0" using assms by simp
    then show ?thesis using True by (simp add: round_even_def Let_def)
  next
    case False
    with f have "\<lfloor>x\<rfloor> + 1 \<le> n" by simp
    then show ?thesis using f by (auto simp: round_even_def Let_def)
  qed
qed

lemma round_even_nonneg:
  assumes "0 \<le> x"
  shows "0 \<le> round_even x"
proof -
  have "0 \<le> \<lfloor>x\<rfloor>" using assms by simp
  then show ?thesis by (auto simp: round_even_def Let_def)
qed

lemma round_even_of_int: "round_even (of_int n) = n"
  by (simp add: round_even_def Let_def)

lemma binexp_bounds:
  assumes "0 < q"
  shows "2 powi (binexp q) \<le> q" and "q < 2 powi (binexp q + 1)"
proof -
  obtain a b where ab: "quotient_of q = (a, b)" by (cases "quotient_of q")
  then have b: "0 < b" and q: "q = of_int a / of_int b"
    using quotient_of_denom_pos quotient_of_div by blast+
  have a: "0 < a" using assms b q by (simp add: zero_less_divide_iff)
  define la lb where "la = bitlen a" and "lb = bitlen b"
  have la: "2 ^ nat (la - 1) \<le> a" "a < 2 ^ nat la"
    using bitlen_bounds [OF a] by (simp_all add: la_def)
  have lb: "2 ^ nat (lb - 1) \<le> b" "b < 2 ^ nat lb"
    using bitlen_bounds [OF b] by (simp_all add: lb_def)
  have la1: "1 \<le> la" and lb1: "1 \<le> lb"
    using a b bitlen_eq_zero_iff [of a] bitlen_eq_zero_iff [of b] bitlen_nonneg [of a] bitlen_nonneg [of b]
    by (auto simp: la_def lb_def) 
  have "(of_int (2 ^ nat (la - 1)) :: rat) \<le> of_int a" "(of_int a :: rat) < of_int (2 ^ nat la)"
    using la by (simp_all only: of_int_le_iff of_int_less_iff)
  then have ra: "(2::rat) powi (la - 1) \<le> of_int a" "(of_int a :: rat) < 2 powi la"
    using la1 by (simp_all add: power_int_def)
  have "(of_int (2 ^ nat (lb - 1)) :: rat) \<le> of_int b" "(of_int b :: rat) < of_int (2 ^ nat lb)"
    using lb by (simp_all only: of_int_le_iff of_int_less_iff)
  then have rb: "(2::rat) powi (lb - 1) \<le> of_int b" "(of_int b :: rat) < 2 powi lb"
    using lb1 by (simp_all add: power_int_def)
  have "of_int a / of_int b < (2::rat) powi la / 2 powi (lb - 1)"
    using ra rb a b by (intro frac_less) simp_all
  also have "(2::rat) powi la / 2 powi (lb - 1) = 2 powi (la - (lb - 1))"
    by (simp add: power_int_diff)
  finally have up: "q < 2 powi (la - lb + 1)"
    by (simp add: q algebra_simps)
  have "(2::rat) powi (la - 1) / 2 powi lb < of_int a / of_int b"
    using ra rb a b by (intro frac_less2) simp_all
  moreover have "(2::rat) powi (la - 1) / 2 powi lb = 2 powi (la - 1 - lb)"
    by (simp add: power_int_diff)
  ultimately have lo: "2 powi (la - lb - 1) < q"
    by (simp add: q algebra_simps)
  show "2 powi (binexp q) \<le> q"
    using lo by (auto simp: binexp_def ab Let_def la_def lb_def)
  show "q < 2 powi (binexp q + 1)"
    using up by (auto simp: binexp_def ab Let_def la_def lb_def not_le)
qed


lemma binexp_less:
  assumes "0 < q" and "q < 2 powi k"
  shows "binexp q < k"
proof (rule ccontr)
  assume "\<not> binexp q < k"
  then have "(2::rat) powi k \<le> 2 powi (binexp q)"
    by (intro power_int_increasing) simp_all
  with binexp_bounds(1) [OF assms(1)] assms(2) show False by simp
qed

lemma fl_pos:
  assumes "0 < q"
  shows "fl q = of_int (round_even (q * 2 powi (52 - binexp q))) / 2 powi (52 - binexp q)"
proof -
  have "(2::rat) powi (binexp q - 52) = 1 / 2 powi (52 - binexp q)"
    using power_int_minus_divide [of "2::rat" "52 - binexp q"] by simp
  then show ?thesis using assms by (simp add: fl_def Let_def)
qed

lemma fl_nonneg:
  assumes "0 \<le> q"
  shows "0 \<le> fl q"
proof (cases "q = 0")
  case True
  then show ?thesis by (simp add: fl_def)
next
  case False
  with assms have q: "0 < q" by simp
  have "0 \<le> round_even (q * 2 powi (52 - binexp q))"
    using q by (intro round_even_nonneg) simp
  then show ?thesis by (simp add: fl_pos [OF q])
qed

lemma fl_err:
  assumes "0 < q"
  shows "\<bar>fl q - q\<bar> \<le> q / 2 ^ 53"
proof -
  define e where "e = binexp q"
  define S :: rat where "S = 2 powi (52 - e)"
  have S: "0 < S" by (simp add: S_def)
  have "\<bar>of_int (round_even (q * S)) - q * S\<bar> \<le> 1 / 2"
    by (rule round_even_err)
  then have "\<bar>of_int (round_even (q * S)) - q * S\<bar> / S \<le> (1 / 2) / S"
    using S by (intro divide_right_mono) simp_all
  moreover have "\<bar>of_int (round_even (q * S)) - q * S\<bar> / S = \<bar>fl q - q\<bar>"
  proof -
    have "fl q - q = (of_int (round_even (q * S)) - q * S) / S"
      using S by (simp add: fl_pos [OF assms] S_def e_def field_simps)
    then show ?thesis using S by (simp add: abs_divide)
  qed
  moreover have "(1 / 2) / S = 2 powi e / 2 ^ 53"
  proof -
    have "S * 2 powi e = 2 powi 52"
      unfolding S_def by (simp flip: power_int_add)
    then have "2 powi e = 2 ^ 52 / S" using S by (simp add: field_simps)
    then show ?thesis by simp
  qed
  moreover have "2 powi e / 2 ^ 53 \<le> q / 2 ^ 53"
    using binexp_bounds(1) [OF assms] by (simp add: e_def divide_right_mono)
  ultimately show ?thesis by simp
qed

lemma fl_le_int:
  assumes "0 < q" and "q \<le> of_int n" and "binexp q \<le> 52"
  shows "fl q \<le> of_int n"
proof -
  define k where "k = nat (52 - binexp q)"
  have S: "(2::rat) powi (52 - binexp q) = of_int (2 ^ k)"
    using assms(3) by (simp add: power_int_def k_def)
  have "q * of_int (2 ^ k) \<le> of_int (n * 2 ^ k)"
    using assms(2) by (simp add: mult_right_mono)
  then have "round_even (q * of_int (2 ^ k)) \<le> n * 2 ^ k"
    by (rule round_even_le)
  then have "(of_int (round_even (q * of_int (2 ^ k))) :: rat) \<le> of_int (n * 2 ^ k)"
    by (simp only: of_int_le_iff)
  then have "(of_int (round_even (q * of_int (2 ^ k))) :: rat) / of_int (2 ^ k) \<le> of_int n"
    by (simp add: field_simps)
  then show ?thesis by (simp only: fl_pos [OF assms(1)] S)
qed

lemma fl_one: "fl 1 = 1"
  by code_simp

lemma fl_hundred: "fl 100 = 100"
  by code_simp

lemma floor_stable:
  fixes d :: rat
  assumes D: "0 < D" and nz: "N mod D \<noteq> 0" and d: "\<bar>d\<bar> < 1 / of_nat D"
  shows "\<lfloor>of_nat N / of_nat D + d\<rfloor> = int (N div D)"
proof -
  have split: "(of_nat N :: rat) = of_nat (N div D) * of_nat D + of_nat (N mod D)"
    by (metis div_mult_mod_eq of_nat_add of_nat_mult)
  have t: "(of_nat N :: rat) / of_nat D = of_nat (N div D) + of_nat (N mod D) / of_nat D"
    using D by (simp add: split field_simps)
  have "1 \<le> N mod D" using nz by simp
  then have "(1 :: rat) \<le> of_nat (N mod D)" by (metis of_nat_1 of_nat_le_iff)
  then have lo: "(1 :: rat) / of_nat D \<le> of_nat (N mod D) / of_nat D"
    using D by (simp add: divide_right_mono)
  have "N mod D + 1 \<le> D" using D by (simp add: Suc_leI)
  then have "(of_nat (N mod D + 1) :: rat) \<le> of_nat D" by (simp only: of_nat_le_iff)
  then have "(of_nat (N mod D) :: rat) \<le> of_nat D - 1" by simp
  then have "(of_nat (N mod D) :: rat) / of_nat D \<le> (of_nat D - 1) / of_nat D"
    using D by (simp add: divide_right_mono)
  also have "\<dots> = 1 - 1 / of_nat D" using D by (simp add: field_simps)
  finally have hi: "(of_nat (N mod D) :: rat) / of_nat D \<le> 1 - 1 / of_nat D" .
  have "of_int (int (N div D)) \<le> of_nat N / of_nat D + d"
    and "of_nat N / of_nat D + d < of_int (int (N div D)) + 1"
    using lo hi d unfolding t by (simp_all add: abs_less_iff)
  then show ?thesis by (simp add: floor_eq_iff)
qed

lemma floor_near_int:
  fixes d :: rat
  assumes "\<bar>d\<bar> < 1"
  shows "\<lfloor>of_int n + d\<rfloor> = n \<or> \<lfloor>of_int n + d\<rfloor> = n - 1"
proof (cases "0 \<le> d")
  case True
  then have "\<lfloor>of_int n + d\<rfloor> = n" using assms by (simp add: floor_eq_iff)
  then show ?thesis ..
next
  case False
  then have "\<lfloor>of_int n + d\<rfloor> = n - 1" using assms by (simp add: floor_eq_iff abs_less_iff)
  then show ?thesis ..
qed

text \<open>The double-precision product of the score, before \<open>Math.round\<close>.\<close>

lemma score_value_zero: "js_mul (js_div 0 m) 100 = 0"
  by (simp add: js_mul_def js_div_def fl_def)

lemma js_div_unit:
  assumes "0 < r" and "r \<le> m"
  shows "0 < js_div (of_nat r) (of_nat m)" and "js_div (of_nat r) (of_nat m) \<le> 1"
    and "\<bar>js_div (of_nat r) (of_nat m) - of_nat r / of_nat m\<bar> \<le> 1 / 2 ^ 53"
proof -
  define q :: rat where "q = of_nat r / of_nat m"
  have q: "0 < q" "q \<le> 1" using assms by (simp_all add: q_def)
  have e: "binexp q < 1" using q by (intro binexp_less) simp_all
  have "fl q \<le> of_int 1" using q e by (intro fl_le_int) simp_all
  then show "js_div (of_nat r) (of_nat m) \<le> 1" by (simp add: js_div_def q_def)
  have err: "\<bar>fl q - q\<bar> \<le> q / 2 ^ 53" by (rule fl_err [OF q(1)])
  also have "\<dots> \<le> 1 / 2 ^ 53" using q(2) by (simp add: divide_right_mono)
  finally show "\<bar>js_div (of_nat r) (of_nat m) - of_nat r / of_nat m\<bar> \<le> 1 / 2 ^ 53"
    by (simp add: js_div_def q_def)
  have "q / 2 ^ 53 < q" using q(1) by (simp add: field_simps)
  moreover from err have "q - fl q \<le> q / 2 ^ 53" by linarith
  ultimately have "0 < fl q" by linarith
  then show "0 < js_div (of_nat r) (of_nat m)" by (simp add: js_div_def q_def)
qed

lemma score_value_bounds:
  assumes "0 < r" and "r \<le> m"
  shows "0 \<le> js_mul (js_div (of_nat r) (of_nat m)) 100"
    and "js_mul (js_div (of_nat r) (of_nat m)) 100 \<le> 100"
    and "\<bar>js_mul (js_div (of_nat r) (of_nat m)) 100 - 100 * of_nat r / of_nat m\<bar> \<le> 200 / 2 ^ 53"
proof -
  define y where "y = js_div (of_nat r) (of_nat m)"
  define z where "z = y * 100"
  note y = js_div_unit [OF assms, folded y_def]
  have z: "0 < z" "z \<le> 100" using y by (simp_all add: z_def)
  show "0 \<le> js_mul (js_div (of_nat r) (of_nat m)) 100"
    using z by (simp add: js_mul_def fl_nonneg flip: y_def z_def)
  have e: "binexp z < 7" using z by (intro binexp_less) simp_all
  have "fl z \<le> of_int 100" using z e by (intro fl_le_int) simp_all
  then show "js_mul (js_div (of_nat r) (of_nat m)) 100 \<le> 100"
    by (simp add: js_mul_def flip: y_def z_def)
  have "\<bar>fl z - z\<bar> \<le> z / 2 ^ 53" by (rule fl_err [OF z(1)])
  also have "\<dots> \<le> 100 / 2 ^ 53" using z(2) by (simp add: divide_right_mono)
  finally have e1: "\<bar>fl z - z\<bar> \<le> 100 / 2 ^ 53" .
  have "z - 100 * of_nat r / of_nat m = 100 * (y - of_nat r / of_nat m)"
    by (simp add: z_def algebra_simps)
  then have "\<bar>z - 100 * of_nat r / of_nat m\<bar> = 100 * \<bar>y - of_nat r / of_nat m\<bar>"
    by (simp only: abs_mult)
  also have "\<dots> \<le> 100 * (1 / 2 ^ 53)" using y(3) by (intro mult_left_mono) simp_all
  finally have e2: "\<bar>z - 100 * of_nat r / of_nat m\<bar> \<le> 100 / 2 ^ 53" by simp
  have "\<bar>fl z - 100 * of_nat r / of_nat m\<bar> \<le> \<bar>fl z - z\<bar> + \<bar>z - 100 * of_nat r / of_nat m\<bar>"
    by simp
  with e1 e2 have "\<bar>fl z - 100 * of_nat r / of_nat m\<bar> \<le> 200 / 2 ^ 53" by simp
  then show "\<bar>js_mul (js_div (of_nat r) (of_nat m)) 100 - 100 * of_nat r / of_nat m\<bar> \<le> 200 / 2 ^ 53"
    by (simp add: js_mul_def flip: y_def z_def)
qed

lemma Math_round_zero: "Math_round 0 = 0"
  by (simp add: Math_round_def floor_eq_iff)

lemma Math_round_hundred: "Math_round 100 = 100"
  by (simp add: Math_round_def floor_eq_iff)

lemma score_zero: "relevanceScore_of 0 m = 0"
  by (simp add: relevanceScore_of_def score_value_zero Math_round_zero)

lemma score_range:
  assumes "r \<le> m"
  shows "0 \<le> relevanceScore_of r m" and "relevanceScore_of r m \<le> 100"
proof -
  have "0 \<le> relevanceScore_of r m \<and> relevanceScore_of r m \<le> 100"
  proof (cases "r = 0")
    case True
    then show ?thesis by (simp add: score_zero)
  next
    case False
    then have r: "0 < r" by simp
    from score_value_bounds(1,2) [OF r assms] show ?thesis
      by (simp add: relevanceScore_of_def Math_round_def floor_le_iff le_floor_iff)
  qed
  then show "0 \<le> relevanceScore_of r m" and "relevanceScore_of r m \<le> 100" by simp_all
qed

lemma score_max:
  assumes "0 < m"
  shows "relevanceScore_of m m = 100"
proof -
  have "(of_nat m :: rat) / of_nat m = 1" using assms by simp
  then show ?thesis
    by (simp add: relevanceScore_of_def js_div_def js_mul_def fl_one fl_hundred
        Math_round_hundred)
qed

lemma score_round:
  assumes m: "0 < m" and rm: "r \<le> m" and small: "m \<le> 2 ^ 40"
  shows "\<bar>of_int (relevanceScore_of r m) - 100 * of_nat r / of_nat m\<bar> \<le> (1 / 2 :: rat)"
    and "frac (100 * of_nat r / of_nat m :: rat) \<noteq> 1 / 2 \<Longrightarrow>
           relevanceScore_of r m = round (100 * of_nat r / of_nat m :: rat)"
proof -
  define x :: rat where "x = 100 * of_nat r / of_nat m"
  define d where "d = js_mul (js_div (of_nat r) (of_nat m)) 100 - x"
  define N D where "N = 200 * r + m" and "D = 2 * m"
  have D: "0 < D" using m by (simp add: D_def)
  have t: "x + 1 / 2 = of_nat N / of_nat D"
    using m by (simp add: x_def N_def D_def field_simps)
  have score: "relevanceScore_of r m = \<lfloor>(of_nat N :: rat) / of_nat D + d\<rfloor>"
    by (simp add: relevanceScore_of_def Math_round_def d_def add.commute flip: t)
  have "\<bar>d\<bar> \<le> 200 / 2 ^ 53"
  proof (cases "r = 0")
    case True
    then show ?thesis by (simp add: d_def x_def score_value_zero)
  next
    case False
    then have "0 < r" by simp
    from score_value_bounds(3) [OF this rm] show ?thesis by (simp add: d_def x_def)
  qed
  moreover have "(200 :: rat) / 2 ^ 53 < 1 / of_nat D"
  proof -
    have "D \<le> 2 ^ 41" using small by (simp add: D_def)
    then have "(of_nat D :: rat) \<le> of_nat (2 ^ 41)" by (simp only: of_nat_le_iff)
    then have "(of_nat D :: rat) * 200 < 2 ^ 53" by simp
    then show ?thesis using D by (simp add: field_simps)
  qed
  ultimately have d: "\<bar>d\<bar> < 1 / of_nat D" by simp
  have D1: "(1 :: rat) / of_nat D \<le> 1" using D by simp
  have rnd: "round x = \<lfloor>(of_nat N :: rat) / of_nat D\<rfloor>" by (simp add: round_def t)
  show "\<bar>of_int (relevanceScore_of r m) - x\<bar> \<le> (1 / 2 :: rat)"
  proof (cases "N mod D = 0")
    case False
    from floor_stable [OF D False d] floor_stable [OF D False, of 0] D
    have "relevanceScore_of r m = round x" by (simp add: score rnd)
    then show ?thesis using of_int_round_abs_le [of x] by simp
  next
    case True
    then have "(of_nat N :: rat) = of_nat (N div D) * of_nat D"
      by (metis mod_0_imp_dvd dvd_div_mult_self of_nat_mult)
    then have n: "(of_nat N :: rat) / of_nat D = of_int (int (N div D))" using D by simp
    have "\<bar>d\<bar> < 1" using d D1 by simp
    from floor_near_int [OF this, of "int (N div D)"]
    have "relevanceScore_of r m = int (N div D) \<or> relevanceScore_of r m = int (N div D) - 1"
      by (simp add: score n)
    moreover have "x = of_int (int (N div D)) - 1 / 2" using t n by simp
    ultimately show ?thesis by auto
  qed
  show "relevanceScore_of r m = round x" if nt: "frac x \<noteq> 1 / 2"
  proof -
    have "N mod D \<noteq> 0"
    proof
      assume "N mod D = 0"
      then have "(of_nat N :: rat) = of_nat (N div D) * of_nat D"
        by (metis mod_0_imp_dvd dvd_div_mult_self of_nat_mult)
      then have "(of_nat N :: rat) / of_nat D = of_int (int (N div D))" using D by simp
      with t have x: "x = of_int (int (N div D) - 1) + 1 / 2" by simp
      have "\<lfloor>x\<rfloor> = int (N div D) - 1" unfolding x by (simp add: floor_eq_iff)
      then have "frac x = 1 / 2" unfolding frac_def using x by simp
      with nt show False by simp
    qed
    from floor_stable [OF D this d] floor_stable [OF D this, of 0] D
    show ?thesis by (simp add: score rnd)
  qed
qed

section \<open>The worked example of the metrics\<close>

lemma tokens_topic_example:
  "tokenize ''machine learning diagnostics'' = [''machine'', ''learning'', ''diagnostics'']"
  by code_simp

lemma tokens_paper_A:
  "tokenize (toLowerCase ''Machine Learning for Diagnostics '') =
     [''machine'', ''learning'', ''diagnostics'']"
  by code_simp

lemma tokens_paper_B:
  "tokenize (toLowerCase ''Cooking Recipes '') = [''cooking'', ''recipes'']"
  by code_simp

lemma score_3_3: "relevanceScore_of (Suc (Suc (Suc 0))) (Suc (Suc (Suc 0))) = 100"
  by code_simp

lemma score_0_3: "relevanceScore_of 0 (Suc (Suc (Suc 0))) = 0"
  by code_simp

lemma diagnostics_tokens:
  "tokenize (topicText diagnostics_session) = [''machine'', ''learning'', ''diagnostics'']"
  by code_simp

lemma diagnostics_relevances: "map relevance diagnostics_chart = [3, 0]"
  by (simp add: diagnostics_chart_def map_relevance raw_relevance_rawPoint diagnostics_tokens
      paperText_def paper_A_def paper_B_def or_empty_def tokens_paper_A tokens_paper_B
      relevance_of_def)

lemma diagnostics_items:
  "diagnostics_chart ! 0 \<in> set diagnostics_chart" "diagnostics_chart ! 1 \<in> set diagnostics_chart"
  "relevance (diagnostics_chart ! 0) = 3" "relevance (diagnostics_chart ! 1) = 0"
  "relevance ` set diagnostics_chart = {3, 0}"
proof -
  have len: "length diagnostics_chart = 2"
    by (simp add: diagnostics_chart_def metrics_length)
  then show "diagnostics_chart ! 0 \<in> set diagnostics_chart"
    and "diagnostics_chart ! 1 \<in> set diagnostics_chart"
    by simp_all
  have "map relevance diagnostics_chart ! 0 = 3" "map relevance diagnostics_chart ! 1 = 0"
    by (simp_all add: diagnostics_relevances)
  then show "relevance (diagnostics_chart ! 0) = 3" "relevance (diagnostics_chart ! 1) = 0"
    using len by simp_all
  have "set (map relevance diagnostics_chart) = {3, 0}"
    by (simp add: diagnostics_relevances)
  then show "relevance ` set diagnostics_chart = {3, 0}" by simp
qed

text \<open>
  C1. The session's topic text gives the tokens of "machine learning diagnostics"; the
  corpus is Paper A, "Machine Learning for Diagnostics" with 50 citations, and Paper B,
  "Cooking Recipes" with 5, both with an empty abstract (null or the empty string). Then
  A is more relevant than B (3 shared tokens against 0), the relevance scores are 100 and
  0, and the citations 50 and 5.
\<close>

theorem metrics_example:
  assumes "tokenize (topicText s) = tokenize ''machine learning diagnostics''"
    and "or_empty aa = []" and "or_empty ab = []"
  shows "relevance (metricsChartData (Some s) [paper_A ia aa, paper_B ib ab] ! 1)
           < relevance (metricsChartData (Some s) [paper_A ia aa, paper_B ib ab] ! 0)
       \<and> map relevance (metricsChartData (Some s) [paper_A ia aa, paper_B ib ab]) = [3, 0]
       \<and> map relevanceScore (metricsChartData (Some s) [paper_A ia aa, paper_B ib ab])
           = [100, 0]
       \<and> map citations (metricsChartData (Some s) [paper_A ia aa, paper_B ib ab]) = [50, 5]"
  unfolding metrics_unfold assms(1) tokens_topic_example
  by (simp add: chartItem_def rawPoint_def Let_def paperText_def assms tokens_paper_A
      tokens_paper_B relevance_of_def upt_rec maxRelevance_of_def score_3_3 score_0_3
      citations_of_def paper_A_def paper_B_def)

theorem metrics_example_witness:
  "tokenize (topicText diagnostics_session) = tokenize ''machine learning diagnostics''
   \<and> or_empty None = [] \<and> or_empty (Some []) = []
   \<and> map relevance
        (metricsChartData (Some diagnostics_session) [paper_A ''A'' None, paper_B ''B'' (Some [])])
       = [3, 0]
   \<and> map relevanceScore
        (metricsChartData (Some diagnostics_session) [paper_A ''A'' None, paper_B ''B'' (Some [])])
       = [100, 0]
   \<and> map citations
        (metricsChartData (Some diagnostics_session) [paper_A ''A'' None, paper_B ''B'' (Some [])])
       = [50, 5]"
proof -
  have h1: "tokenize (topicText diagnostics_session) = tokenize ''machine learning diagnostics''"
    by code_simp
  have h2: "or_empty None = []" and h3: "or_empty (Some []) = []"
    by (simp_all add: or_empty_def)
  from metrics_example [OF h1 h2 h3, of "''A''" "''B''"] h1 h2 h3 show ?thesis
    by simp
qed

section \<open>Citations\<close>

text \<open>
  C9. The citations of every paper of the chart are its stored \<open>citation_count\<close> when
  that is a number and not negative, and 0 when it is negative, not a number, or missing.
\<close>

theorem citations_clamped:
  "map citations (metricsChartData (Some s) ps) =
     map (\<lambda>p. case citation_count p of
                 JNumber n \<Rightarrow> if 0 \<le> n then n else 0
               | JNaN \<Rightarrow> 0 | JString x \<Rightarrow> 0 | JNull \<Rightarrow> 0 | JUndefined \<Rightarrow> 0) ps"
  unfolding map_citations
  by (rule map_cong) (auto simp: citations_of_def split: js_value.splits)

section \<open>The empty corpus\<close>

text \<open>
  C5. With no paper in the session, generating a draft and exporting the bibliography
  return at once with their message and send no request, whatever the backend would have
  answered; the chat's submit button is disabled and submitting the form sends nothing.
\<close>

theorem empty_corpus_blocks:
  assumes "papers st = []"
  shows "handleGenerateDraft st r1 =
           (st, [Alert ''Add some sources to this session before generating a draft.''])
       \<and> requests_of (snd (handleGenerateDraft st r1)) = []
       \<and> handleExportBibliography st r2 =
           (st, [Alert ''Add some sources to this session before exporting references.''])
       \<and> requests_of (snd (handleExportBibliography st r2)) = []
       \<and> chat_submit_disabled st
       \<and> submit_chat_form st r3 = (st, [])"
  using assms
  by (simp add: handleGenerateDraft_def handleExportBibliography_def chat_submit_disabled_def
      submit_chat_form_def requests_of_def)

theorem empty_corpus_blocks_witness:
  "papers asking_state = []
   \<and> handleGenerateDraft asking_state (Succeeded (Some ''text'')) =
       (asking_state, [Alert ''Add some sources to this session before generating a draft.''])
   \<and> handleExportBibliography asking_state (Succeeded (Some ''refs'')) =
       (asking_state, [Alert ''Add some sources to this session before exporting references.''])
   \<and> submit_chat_form asking_state (Succeeded ''because'') = (asking_state, [])"
proof -
  have h: "papers asking_state = []"
    by (simp add: asking_state_def initial_state_def)
  from empty_corpus_blocks [OF h, of "Succeeded (Some ''text'')" "Succeeded (Some ''refs'')"
      "Succeeded ''because''"] h
  show ?thesis by simp
qed

section \<open>A failed chat request\<close>

lemma trim_example: "trim '' why? '' = ''why?''"
  by code_simp

text \<open>
  C6 as stated fails: after a failed request the chat messages of the page hold the
  question and, after it, a message of the assistant made up by the page.
\<close>

theorem chat_failure_counterexample:
  "chatMessages (fst (handleChatSubmit asking_state (Failed None))) =
     [\<lparr>role = User, content = ''why?''\<rparr>,
      \<lparr>role = Assistant, content = ''Error: Failed to get answer''\<rparr>]"
  by (simp add: handleChatSubmit_def Let_def trim_example asking_state_def initial_state_def
      detail_or_def)

text \<open>
  C6, amended. When the request of a chat question fails, the page appends the question
  and then a message of role assistant that reports the failure, "Error: " followed by the
  detail of the error response or by "Failed to get answer"; the one request sent is the
  failed one, and the failure is logged.
\<close>

theorem chat_failure_recorded:
  assumes "trim (chatInput st) \<noteq> []"
  shows "chatMessages (fst (handleChatSubmit st (Failed d))) =
           chatMessages st @
             [\<lparr>role = User, content = trim (chatInput st)\<rparr>,
              \<lparr>role = Assistant, content = ''Error: '' @ detail_or d ''Failed to get answer''\<rparr>]
       \<and> snd (handleChatSubmit st (Failed d)) =
           [Send (Post_rag_chat (sessionId st) (trim (chatInput st))),
            Console_error ''Chat error:'']"
  using assms by (simp add: handleChatSubmit_def Let_def)

theorem chat_failure_recorded_witness:
  "trim (chatInput asking_state) \<noteq> []
   \<and> chatMessages (fst (handleChatSubmit asking_state (Failed (Some ''timeout'')))) =
       [\<lparr>role = User, content = ''why?''\<rparr>,
        \<lparr>role = Assistant, content = ''Error: timeout''\<rparr>]
   \<and> snd (handleChatSubmit asking_state (Failed (Some ''timeout''))) =
       [Send (Post_rag_chat ''s1'' ''why?''), Console_error ''Chat error:'']"
proof -
  have h: "trim (chatInput asking_state) \<noteq> []"
    by (simp add: asking_state_def initial_state_def trim_example)
  from chat_failure_recorded [OF h, of "Some ''timeout''"] h show ?thesis
    by (simp add: asking_state_def initial_state_def trim_example detail_or_def)
qed

section \<open>Adding papers\<close>

lemma handleAddPaper_papers:
  "papers (fst (handleAddPaper st p res)) = papers st
   \<or> (papers (fst (handleAddPaper st p res)) = p # papers st
      \<and> paper_id p \<notin> paper_id ` set (papers st))"
  by (auto simp: handleAddPaper_def split: outcome.splits)

lemma handleAddPaper_distinct:
  assumes "distinct (map paper_id (papers st))"
  shows "distinct (map paper_id (papers (fst (handleAddPaper st p res))))"
  using handleAddPaper_papers [of st p res] assms by auto

lemma add_papers_distinct:
  "distinct (map paper_id (papers st)) \<Longrightarrow> distinct (map paper_id (papers (add_papers st ops)))"
proof (induction ops arbitrary: st)
  case Nil
  then show ?case by (simp add: add_papers_def)
next
  case (Cons op ops)
  obtain p res where op: "op = (p, res)" by (cases op)
  have "add_papers st (op # ops) = add_papers (fst (handleAddPaper st p res)) ops"
    by (simp add: add_papers_def op)
  with Cons.IH [OF handleAddPaper_distinct [OF Cons.prems]] show ?case by simp
qed

lemma handleAddPaper_present:
  assumes "paper_id p \<in> paper_id ` set (papers st)"
  shows "papers (fst (handleAddPaper st p res)) = papers st"
  using assms by (auto simp: handleAddPaper_def split: outcome.splits)

text \<open>
  C7. After any sequence of add-paper operations, whatever their requests' outcomes, no
  two papers of the list have the same id: from the empty list of a new page, and from any
  list without a repeated id. Adding a paper whose id is in the list leaves the list as it
  is.
\<close>

theorem add_paper_ids_unique:
  "distinct (map paper_id (papers (add_papers (initial_state sid) ops)))
   \<and> (distinct (map paper_id (papers st)) \<longrightarrow>
        distinct (map paper_id (papers (add_papers st ops))))
   \<and> (paper_id p \<in> paper_id ` set (papers st) \<longrightarrow>
        papers (fst (handleAddPaper st p res)) = papers st)"
  using add_papers_distinct [of "initial_state sid" ops] add_papers_distinct [of st ops]
    handleAddPaper_present [of p st res]
  by (simp add: initial_state_def)

theorem add_paper_ids_unique_witness:
  "distinct (map paper_id (papers two_papers_state))
   \<and> distinct (map paper_id (papers (add_papers two_papers_state
        [(paper_B ''p1'' None, Succeeded ()), (paper_A ''p3'' None, Succeeded ())])))
   \<and> paper_id (paper_B ''p1'' None) \<in> paper_id ` set (papers two_papers_state)
   \<and> papers (fst (handleAddPaper two_papers_state (paper_B ''p1'' None) (Succeeded ()))) =
       papers two_papers_state"
proof -
  have h1: "distinct (map paper_id (papers two_papers_state))"
    by (simp add: two_papers_state_def paper_A_def paper_B_def)
  have h2: "paper_id (paper_B ''p1'' None) \<in> paper_id ` set (papers two_papers_state)"
    by (simp add: two_papers_state_def paper_A_def paper_B_def)
  from add_paper_ids_unique [of "''s1''"
      "[(paper_B ''p1'' None, Succeeded ()), (paper_A ''p3'' None, Succeeded ())]"
      two_papers_state "paper_B ''p1'' None" "Succeeded ()"] h1 h2
  show ?thesis by simp
qed

section \<open>Removing a paper\<close>

text \<open>
  C8. After the removal of paper \<open>P\<close> was confirmed and its request succeeded, the list
  is the former list without the entries of id \<open>P\<close>, so that every paper of another id
  stays, in its place and as it was; no entry has id \<open>P\<close>, and \<open>P\<close> is not among the
  added ids, which are otherwise the same.
\<close>

theorem remove_paper_frame:
  "papers (fst (handleRemovePaper st P True (Succeeded u))) =
       filter (\<lambda>p. paper_id p \<noteq> P) (papers st)
   \<and> P \<notin> paper_id ` set (papers (fst (handleRemovePaper st P True (Succeeded u))))
   \<and> P \<notin> addedPaperIds (fst (handleRemovePaper st P True (Succeeded u)))
   \<and> addedPaperIds (fst (handleRemovePaper st P True (Succeeded u))) = addedPaperIds st - {P}"
  by (auto simp: handleRemovePaper_def)

theorem remove_paper_frame_witness:
  "papers (fst (handleRemovePaper two_papers_state ''p1'' True (Succeeded ()))) =
     [paper_B ''p2'' None]
   \<and> addedPaperIds (fst (handleRemovePaper two_papers_state ''p1'' True (Succeeded ()))) =
     {''p2''}"
  using remove_paper_frame [of two_papers_state "''p1''" "()"]
  by (auto simp: two_papers_state_def paper_A_def paper_B_def)

section \<open>The relevance score\<close>

text \<open>
  C10. Every relevance score of the chart is between 0 and 100, and when some paper has a
  positive relevance, a paper whose relevance no other paper exceeds has the score 100.
\<close>

theorem relevance_score_range:
  assumes "it \<in> set (metricsChartData sess ps)"
  shows "0 \<le> relevanceScore it \<and> relevanceScore it \<le> 100
       \<and> ((\<exists>j \<in> set (metricsChartData sess ps). 0 < relevance j)
            \<and> (\<forall>j \<in> set (metricsChartData sess ps). relevance j \<le> relevance it)
          \<longrightarrow> relevanceScore it = 100)"
proof -
  from assms obtain s where s: "sess = Some s"
    and sc: "relevanceScore it =
      relevanceScore_of (relevance it)
        (maxRelevance_of (map (rawPoint (tokenize (topicText s))) ps))"
    by (rule item_score)
  define D where "D = metricsChartData (Some s) ps"
  define M where "M = Max (insert 0 (relevance ` set D))"
  have it: "it \<in> set D" using assms s by (simp add: D_def)
  have mx: "maxRelevance_of (map (rawPoint (tokenize (topicText s))) ps) = (if M = 0 then 1 else M)"
    by (simp add: maxRelevance_of_def Let_def fold_max_relevance M_def D_def)
  have le: "relevance it \<le> M"
    using relevance_le_max [of it s ps] it by (simp add: M_def D_def)
  then have le': "relevance it \<le> (if M = 0 then 1 else M)" by simp
  have rng: "0 \<le> relevanceScore it \<and> relevanceScore it \<le> 100"
    using score_range [OF le'] by (simp add: sc mx)
  have "relevanceScore it = 100"
    if pos: "\<exists>j \<in> set D. 0 < relevance j" and top: "\<forall>j \<in> set D. relevance j \<le> relevance it"
  proof -
    have "M \<le> relevance it" unfolding M_def using top it by (intro Max.boundedI) auto
    with le have eq: "relevance it = M" by simp
    from pos top have "0 < relevance it" by force
    with eq have "0 < M" by simp
    with score_max [of M] show ?thesis by (simp add: sc mx eq)
  qed
  with rng show ?thesis by (simp add: s D_def)
qed

theorem relevance_score_range_witness:
  "map relevance diagnostics_chart = [3, 0]
   \<and> relevanceScore (diagnostics_chart ! 0) = 100
   \<and> 0 \<le> relevanceScore (diagnostics_chart ! 1)
   \<and> relevanceScore (diagnostics_chart ! 1) \<le> 100"
proof -
  have pos: "\<exists>j \<in> set diagnostics_chart. 0 < relevance j"
    using diagnostics_items(1,3) by force
  have "\<forall>r \<in> relevance ` set diagnostics_chart. r \<le> 3"
    by (simp add: diagnostics_items(5))
  then have top: "\<forall>j \<in> set diagnostics_chart. relevance j \<le> relevance (diagnostics_chart ! 0)"
    by (simp add: diagnostics_items(3))
  from relevance_score_range [of "diagnostics_chart ! 0" "Some diagnostics_session"
      "[paper_A ''A'' None, paper_B ''B'' (Some [])]"] diagnostics_items(1) pos top
  have "relevanceScore (diagnostics_chart ! 0) = 100"
    unfolding diagnostics_chart_def by blast
  moreover from relevance_score_range [of "diagnostics_chart ! 1" "Some diagnostics_session"
      "[paper_A ''A'' None, paper_B ''B'' (Some [])]"] diagnostics_items(2)
  have "0 \<le> relevanceScore (diagnostics_chart ! 1) \<and> relevanceScore (diagnostics_chart ! 1) \<le> 100"
    unfolding diagnostics_chart_def by blast
  ultimately show ?thesis using diagnostics_relevances by blast
qed


lemma wide_topic_tokens: "tokenize (topicText wide_session) = wide_tokens"
  by code_simp

lemma wide_A_text: "paperText wide_A = topicText wide_session"
  by (simp add: paperText_def topicText_def wide_A_def wide_session_def or_empty_def)

lemma wide_B_tokens: "tokenize (paperText wide_B) = take 23 wide_tokens"
  by code_simp

lemma wide_relevance_A: "relevance_of wide_tokens wide_tokens = 40"
  by code_simp

lemma wide_relevance_B: "relevance_of wide_tokens (take 23 wide_tokens) = 23"
  by code_simp

lemma score_40_40: "relevanceScore_of 40 40 = 100"
  by code_simp

lemma score_23_40: "relevanceScore_of 23 40 = 57"
  by code_simp

lemma round_23_40: "round (100 * 23 / 40 :: rat) = 58"
  by (simp add: round_def floor_eq_iff)

lemma wide_relevances:
  "map relevance (metricsChartData (Some wide_session) [wide_A, wide_B]) = [40, 23]"
  by (simp add: map_relevance raw_relevance_rawPoint wide_topic_tokens wide_A_text
      wide_B_tokens wide_relevance_A wide_relevance_B)

text \<open>
  C2 as stated fails: with a greatest relevance of 40, the paper of relevance 23 gets the
  score 57, since the double-precision product \<open>(23 / 40) * 100\<close> is just below 57.5,
  while \<open>round (100 \<times> 23 / 40)\<close> is 58.
\<close>

theorem relevance_score_counterexample:
  "map relevance (metricsChartData (Some wide_session) [wide_A, wide_B]) = [40, 23]
   \<and> map relevanceScore (metricsChartData (Some wide_session) [wide_A, wide_B]) = [100, 57]
   \<and> round (100 * 23 / 40 :: rat) = 58"
proof -
  have "map relevanceScore (metricsChartData (Some wide_session) [wide_A, wide_B]) = [100, 57]"
    by (simp add: map_relevanceScore wide_relevances maxRelevance_of_def raw_relevance_rawPoint
        wide_topic_tokens wide_A_text wide_B_tokens wide_relevance_A wide_relevance_B
        score_40_40 score_23_40)
  with wide_relevances round_23_40 show ?thesis by blast
qed

text \<open>
  C2, amended. For a session whose title and topic have fewer than \<open>2\<^sup>4\<^sup>0\<close>
  characters, as the strings of the language do, and with \<open>M\<close> the greatest relevance of
  the chart: if \<open>M\<close> is 0 every score is 0; otherwise the score is an integer nearest
  to \<open>100 \<times> relevance / M\<close>, and it is \<open>round (100 \<times> relevance / M)\<close> unless that
  value lies exactly halfway between two integers, where the double-precision product
  decides. The divisor is never 0.
\<close>

theorem relevance_score_rounding:
  assumes it: "it \<in> set (metricsChartData (Some s) ps)"
    and small: "length (session_title s) + length (topic s) < 2 ^ 40"
  shows "(Max (relevance ` set (metricsChartData (Some s) ps)) = 0 \<longrightarrow> relevanceScore it = 0)
    \<and> (0 < Max (relevance ` set (metricsChartData (Some s) ps)) \<longrightarrow>
         \<bar>of_int (relevanceScore it)
            - 100 * of_nat (relevance it)
                / of_nat (Max (relevance ` set (metricsChartData (Some s) ps)))\<bar> \<le> (1 / 2 :: rat))
    \<and> (0 < Max (relevance ` set (metricsChartData (Some s) ps))
         \<and> frac (100 * of_nat (relevance it)
                / of_nat (Max (relevance ` set (metricsChartData (Some s) ps))) :: rat) \<noteq> 1 / 2 \<longrightarrow>
         relevanceScore it =
           round (100 * of_nat (relevance it)
                / of_nat (Max (relevance ` set (metricsChartData (Some s) ps))) :: rat))
    \<and> 0 < maxRelevance_of (map (rawPoint (tokenize (topicText s))) ps)"
proof -
  define D where "D = metricsChartData (Some s) ps"
  define M where "M = Max (relevance ` set D)"
  have itD: "it \<in> set D" using it by (simp add: D_def)
  then have ne: "relevance ` set D \<noteq> {}" by auto
  have M0: "Max (insert 0 (relevance ` set D)) = M"
    using ne by (simp add: M_def)
  have mx: "maxRelevance_of (map (rawPoint (tokenize (topicText s))) ps) = (if M = 0 then 1 else M)"
    by (simp add: maxRelevance_of_def Let_def fold_max_relevance M0 flip: D_def)
  from it obtain s' where "Some s = Some s'"
    and "relevanceScore it =
      relevanceScore_of (relevance it)
        (maxRelevance_of (map (rawPoint (tokenize (topicText s'))) ps))"
    by (rule item_score)
  then have sc: "relevanceScore it = relevanceScore_of (relevance it) (if M = 0 then 1 else M)"
    using mx by auto
  have le: "relevance it \<le> M"
    unfolding M_def using itD by (intro Max_ge) simp_all
  have "M \<in> relevance ` set D" unfolding M_def using ne by (intro Max_in) simp_all
  then obtain j where "j \<in> set D" "M = relevance j" by auto
  with item_relevance_le [of j s ps] topic_tokens_length [of s] small
  have Ms: "M \<le> 2 ^ 40" by (simp add: D_def)
  have zero: "relevanceScore it = 0" if "M = 0"
    using that le by (simp add: sc score_zero)
  have near: "\<bar>of_int (relevanceScore it) - 100 * of_nat (relevance it) / of_nat M\<bar> \<le> (1 / 2 :: rat)"
    if "0 < M"
    using score_round(1) [OF that le Ms] that by (simp add: sc)
  have exact: "relevanceScore it = round (100 * of_nat (relevance it) / of_nat M :: rat)"
    if "0 < M" and "frac (100 * of_nat (relevance it) / of_nat M :: rat) \<noteq> 1 / 2"
    using score_round(2) [OF that(1) le Ms that(2)] that(1) by (simp add: sc)
  have "0 < maxRelevance_of (map (rawPoint (tokenize (topicText s))) ps)"
    by (simp add: mx)
  with zero near exact show ?thesis
    unfolding M_def D_def by blast
qed

theorem relevance_score_rounding_witness:
  "length (session_title diagnostics_session) + length (topic diagnostics_session) < 2 ^ 40
   \<and> Max (relevance ` set diagnostics_chart) = 3
   \<and> relevance (diagnostics_chart ! 0) = 3
   \<and> relevanceScore (diagnostics_chart ! 0) = round (100 * 3 / 3 :: rat)
   \<and> relevanceScore (diagnostics_chart ! 0) = 100"
proof -
  have small: "length (session_title diagnostics_session) + length (topic diagnostics_session)
      < 2 ^ 40"
    by (simp add: diagnostics_session_def)
  have M: "Max (relevance ` set diagnostics_chart) = 3"
    by (simp add: diagnostics_items(5))
  have nt: "frac (100 * 3 / 3 :: rat) \<noteq> 1 / 2"
    by (simp add: frac_def)
  from relevance_score_rounding [of "diagnostics_chart ! 0" diagnostics_session
      "[paper_A ''A'' None, paper_B ''B'' (Some [])]"] diagnostics_items(1) small
  have "0 < Max (relevance ` set diagnostics_chart)
      \<and> frac (100 * of_nat (relevance (diagnostics_chart ! 0))
              / of_nat (Max (relevance ` set diagnostics_chart)) :: rat) \<noteq> 1 / 2 \<longrightarrow>
         relevanceScore (diagnostics_chart ! 0) =
           round (100 * of_nat (relevance (diagnostics_chart ! 0))
              / of_nat (Max (relevance ` set diagnostics_chart)) :: rat)"
    unfolding diagnostics_chart_def by blast
  then have "relevanceScore (diagnostics_chart ! 0) = round (100 * 3 / 3 :: rat)"
    using nt by (simp add: M diagnostics_items(3))
  moreover have "round (100 * 3 / 3 :: rat) = 100" by simp
  ultimately show ?thesis using small M diagnostics_items(3) by simp
qed

section \<open>Relevance\<close>

lemma dashes_word_tokens:
  "word_tokens (topicText dashes_session) = [''nets'', ''2019'', ''2024'']"
  "word_tokens (paperText dashes_paper) = [''trees'', ''forests'']"
  by code_simp+

lemma dashes_tokens:
  "tokenize (topicText dashes_session) = [''nets'', ''2019'', ''----'', ''2024'']"
  "tokenize (paperText dashes_paper) = [''trees'', ''----'', ''forests'']"
  by code_simp+

text \<open>
  C3 as stated fails: a run of four hyphens is a token, and it is the only token that the
  topic "Nets 2019 ---- 2024" shares with the title "Trees ---- forests"; the relevance
  is 1, while the two texts share no word token once punctuation is stripped.
\<close>

theorem relevance_tokens_counterexample:
  "map relevance (metricsChartData (Some dashes_session) [dashes_paper]) = [1]
   \<and> set (tokenize (topicText dashes_session)) \<inter> set (tokenize (paperText dashes_paper))
       = {''----''}
   \<and> card (set (word_tokens (topicText dashes_session))
            \<inter> set (word_tokens (paperText dashes_paper))) = 0"
  by (simp add: map_relevance raw_relevance_rawPoint dashes_tokens relevance_of_def
      dashes_word_tokens)

text \<open>
  C3, amended. The relevance of every paper is the number of distinct tokens that the
  topic text (session title, a space, topic) and the paper's text (title, a space,
  abstract) share. The tokens of a text are the pieces of length 4 or more of the
  lower-cased text cut at every character other than a lower-case letter, a digit or a
  hyphen: hyphens stay in the tokens, every other punctuation separates them.
\<close>

theorem relevance_shared_tokens:
  "map relevance (metricsChartData (Some s) ps) =
     map (\<lambda>p. card (set (tokenize (topicText s)) \<inter> set (tokenize (paperText p)))) ps
   \<and> set (tokenize text) =
       {w \<in> set (pieces (\<lambda>c. \<not> token_char c) (toLowerCase text)). 4 \<le> length w}
   \<and> distinct (tokenize text)"
  by (simp add: map_relevance raw_relevance_rawPoint relevance_of_card distinct_tokenize
      tokenize_pieces)

section \<open>Keyword hits\<close>

lemma omics_tokens: "tokenize (topicText omics_session) = [''-omics'', ''data'']"
  by code_simp

lemma omics_text: "paperText omics_paper = ''the -omics revolution ''"
  by code_simp

lemma omics_matches:
  "match_count ''-omics'' ''the -omics revolution '' = 0"
  "match_count ''data'' ''the -omics revolution '' = 0"
  by code_simp+

lemma omics_occurrences:
  "whole_word_occurrences ''-omics'' ''the -omics revolution '' = 1"
  "whole_word_occurrences ''data'' ''the -omics revolution '' = 0"
  by code_simp+

text \<open>
  C4 as stated fails: the topic token "-omics" stands in the text "the -omics
  revolution" once, between two spaces, and the keyword hits are 0, since the pattern
  asks for a word boundary before the hyphen.
\<close>

theorem keywordHits_counterexample:
  "map keywordHits (metricsChartData (Some omics_session) [omics_paper]) = [0]
   \<and> map (\<lambda>p. sum_list (map (\<lambda>t. whole_word_occurrences t (paperText p))
                          (tokenize (topicText omics_session)))) [omics_paper] = [1]"
  by (simp add: map_keywordHits keywordHits_of_sum omics_tokens omics_text omics_matches
      omics_occurrences)

text \<open>
  C4, amended. When every topic token begins and ends with a letter or a digit, and in no
  paper's text a whole-word occurrence of a topic token starts inside another one, the
  keyword hits of every paper are the sum, over the distinct topic tokens, of the number
  of positions of the paper's text at which the token occurs as a whole word, repeats
  counted. Occurrences of a token made of letters and digits only never start inside one
  another.
\<close>

theorem keywordHits_whole_words:
  assumes ends: "\<forall>t \<in> set (tokenize (topicText s)). plain_char (hd t) \<and> plain_char (last t)"
    and apart: "\<forall>p \<in> set ps. \<forall>t \<in> set (tokenize (topicText s)). apart t (paperText p)"
  shows "map keywordHits (metricsChartData (Some s) ps) =
     map (\<lambda>p. sum_list (map (\<lambda>t. whole_word_occurrences t (paperText p))
                           (tokenize (topicText s)))) ps
   \<and> ((\<forall>c \<in> set t. plain_char c) \<longrightarrow> apart t text)"
proof -
  have "match_count t (paperText p) = whole_word_occurrences t (paperText p)"
    if "t \<in> set (tokenize (topicText s))" and "p \<in> set ps" for t p
  proof (rule match_count_occurrences)
    show "t \<noteq> []" using tokenize_long [OF that(1)] by auto
    show "plain_char (hd t)" "plain_char (last t)" using ends that(1) by blast+
    show "\<forall>c \<in> set t. \<not> is_upper c"
      using tokenize_chars [OF that(1)] token_char_not_upper by blast
    show "\<forall>c \<in> set (paperText p). \<not> is_upper c"
      using toLowerCase_not_upper by (auto simp: paperText_def)
    show "apart t (paperText p)" using apart that by blast
  qed
  then have "sum_list (map (\<lambda>t. match_count t (paperText p)) (tokenize (topicText s))) =
      sum_list (map (\<lambda>t. whole_word_occurrences t (paperText p)) (tokenize (topicText s)))"
    if "p \<in> set ps" for p
    using that by (metis (mono_tags, lifting) map_eq_conv)
  then have "map keywordHits (metricsChartData (Some s) ps) =
     map (\<lambda>p. sum_list (map (\<lambda>t. whole_word_occurrences t (paperText p))
                           (tokenize (topicText s)))) ps"
    by (simp add: map_keywordHits keywordHits_of_sum)
  then show ?thesis using plain_apart by blast
qed

lemma covid_tokens: "tokenize (topicText covid_session) = [''covid-19'', ''tests'']"
  by code_simp

lemma covid_text: "paperText covid_paper = ''covid-19 and covid-19 tests ''"
  by code_simp

lemma covid_ends: "plain_char (hd ''covid-19'') \<and> plain_char (last ''covid-19'')"
  "plain_char (hd ''tests'') \<and> plain_char (last ''tests'')"
  by code_simp+

lemma covid_apart: "apart ''covid-19'' ''covid-19 and covid-19 tests ''"
  by code_simp

lemma tests_apart: "apart ''tests'' ''covid-19 and covid-19 tests ''"
  by (rule plain_apart) code_simp

lemma covid_occurrences:
  "whole_word_occurrences ''covid-19'' ''covid-19 and covid-19 tests '' = 2"
  "whole_word_occurrences ''tests'' ''covid-19 and covid-19 tests '' = 1"
  by code_simp+

theorem keywordHits_whole_words_witness:
  "tokenize (topicText covid_session) = [''covid-19'', ''tests'']
   \<and> paperText covid_paper = ''covid-19 and covid-19 tests ''
   \<and> map keywordHits (metricsChartData (Some covid_session) [covid_paper]) = [3]"
proof -
  have ends: "\<forall>t \<in> set (tokenize (topicText covid_session)). plain_char (hd t) \<and> plain_char (last t)"
    using covid_ends by (simp add: covid_tokens)
  have apart: "\<forall>p \<in> set [covid_paper]. \<forall>t \<in> set (tokenize (topicText covid_session)).
      apart t (paperText p)"
    using covid_apart tests_apart by (simp add: covid_tokens covid_text)
  from keywordHits_whole_words [OF ends apart]
  have "map keywordHits (metricsChartData (Some covid_session) [covid_paper]) = [3]"
    by (simp add: covid_tokens covid_text covid_occurrences)
  with covid_tokens covid_text show ?thesis by blast
qed

end
